theory Spec2Isabelle
  imports Main "HOL-Library.List_Lexorder" "HOL-Library.Product_Lexorder" "HOL-Library.Sublist"
begin

section \<open>Python strings\<close>

text \<open>
  A Python \<^verbatim>\<open>str\<close> is a sequence of Unicode code points, and every string operation of
  the pipeline (\<^verbatim>\<open>strip\<close>, \<^verbatim>\<open>split\<close>, \<^verbatim>\<open>join\<close>, the \<^verbatim>\<open>re\<close> module) works on code
  points. A string is therefore a list of code points; \<open>ascii\<close> turns an ASCII literal
  into one. Comparison of strings is Python's: lexicographic on the code points.
\<close>

type_synonym pystr = "nat list"

definition ascii :: "string \<Rightarrow> pystr" where
  "ascii s = map of_char s"

text \<open>
  \<^verbatim>\<open>str.isspace\<close> of one character, which is also what \<^verbatim>\<open>\s\<close> matches in a \<^verbatim>\<open>str\<close>
  pattern and what \<^verbatim>\<open>str.strip()\<close> removes: the White\_Space code points of the Unicode
  character database together with the four information separators U+001C..U+001F.
\<close>

definition whitespace_points :: "nat list" where
  "whitespace_points =
     [9, 10, 11, 12, 13, 28, 29, 30, 31, 32, 133, 160, 5760, 8192, 8193, 8194, 8195, 8196,
      8197, 8198, 8199, 8200, 8201, 8202, 8232, 8233, 8239, 8287, 12288]"

definition py_isspace :: "nat \<Rightarrow> bool" where
  "py_isspace c = (c \<in> set whitespace_points)"

text \<open>
  The decimal digits (general category Nd), which \<^verbatim>\<open>\d\<close> matches and \<^verbatim>\<open>int\<close> reads. Each
  run of decimal digits in Unicode is ten consecutive code points for the values 0 to 9;
  \<open>decimal_zeros\<close> lists the zero of every run (Unicode 14, the database of CPython 3.11).
\<close>

definition decimal_zeros :: "nat list" where
  "decimal_zeros =
     [48, 1632, 1776, 1984, 2406, 2534, 2662, 2790, 2918, 3046, 3174, 3302, 3430, 3558,
      3664, 3792, 3872, 4160, 4240, 6112, 6160, 6470, 6608, 6784, 6800, 6992, 7088, 7232,
      7248, 42528, 43216, 43264, 43472, 43504, 43600, 44016, 65296, 66720, 68912, 69734,
      69872, 69942, 70096, 70384, 70736, 70864, 71248, 71360, 71472, 71904, 72016, 72784,
      73040, 73120, 92768, 92864, 93008, 120782, 120792, 120802, 120812, 120822, 123200,
      123632, 125264, 130032]"

definition py_decimal :: "nat \<Rightarrow> nat option" where
  "py_decimal c =
     (case find (\<lambda>z. z \<le> c \<and> c < z + 10) decimal_zeros of
        None \<Rightarrow> None
      | Some z \<Rightarrow> Some (c - z))"

definition py_isdecimal :: "nat \<Rightarrow> bool" where
  "py_isdecimal c = (py_decimal c \<noteq> None)"

text \<open>\<^verbatim>\<open>int(s)\<close> for a string of decimal digits, as the callers pass it.\<close>

definition py_int :: "pystr \<Rightarrow> nat" where
  "py_int s = foldl (\<lambda>acc c. 10 * acc + (case py_decimal c of None \<Rightarrow> 0 | Some d \<Rightarrow> d)) 0 s"

definition py_strip :: "pystr \<Rightarrow> pystr" where
  "py_strip s = rev (dropWhile py_isspace (rev (dropWhile py_isspace s)))"

text \<open>\<^verbatim>\<open>sep.join(xs)\<close>.\<close>

fun py_join :: "pystr \<Rightarrow> pystr list \<Rightarrow> pystr" where
  "py_join sep [] = []"
| "py_join sep [x] = x"
| "py_join sep (x # y # ys) = x @ sep @ py_join sep (y # ys)"

text \<open>\<^verbatim>\<open>s.split(c)\<close> for a one-character separator: never an empty list.\<close>

fun py_split :: "nat \<Rightarrow> pystr \<Rightarrow> pystr list" where
  "py_split c [] = [[]]"
| "py_split c (x # xs) =
     (if x = c then [] # py_split c xs
      else (case py_split c xs of
              [] \<Rightarrow> [[x]]
            | p # ps \<Rightarrow> (x # p) # ps))"

section \<open>The regular expressions of the \<^verbatim>\<open>re\<close> module\<close>

text \<open>
  The patterns of the source are values of \<open>regex\<close>, matched by a backtracking matcher
  in the order of Python's: an alternative tries its left branch first, a repetition is
  greedy, and the first way to reach the end of the pattern is the match. A character set
  is a class escape or an explicit list of code points; under \<^verbatim>\<open>re.IGNORECASE\<close> the
  list holds every code point that matches.
\<close>

datatype cset = Digit | Space | NotSpace | Dot | OneOf "nat list"

fun in_cset :: "cset \<Rightarrow> nat \<Rightarrow> bool" where
  "in_cset Digit c = py_isdecimal c"
| "in_cset Space c = py_isspace c"
| "in_cset NotSpace c = (\<not> py_isspace c)"
| "in_cset Dot c = (c \<noteq> 10)"
| "in_cset (OneOf cs) c = (c \<in> set cs)"

datatype regex =
    Chr cset
  | Cat regex regex
  | Alt regex regex
  | Star regex
  | Grp nat regex
  | Bol
  | Eol
  | Eps

text \<open>\<^verbatim>\<open>r+\<close>, \<^verbatim>\<open>r?\<close> and a literal character.\<close>

definition Plus :: "regex \<Rightarrow> regex" where
  "Plus r = Cat r (Star r)"

definition Opt :: "regex \<Rightarrow> regex" where
  "Opt r = Alt r Eps"

definition Lit :: "nat \<Rightarrow> regex" where
  "Lit c = Chr (OneOf [c])"

text \<open>
  A matcher state: the number of characters consumed, the text still ahead, and the
  groups captured so far.
\<close>

type_synonym groups = "nat \<rightharpoonup> pystr"
type_synonym mstate = "nat \<times> pystr \<times> groups"

text \<open>
  A greedy repetition: one more iteration first, then the rest of the pattern. An
  iteration consumes at least one character, so the length of the text ahead bounds the
  number of iterations.
\<close>

primrec star_iter ::
  "((mstate \<Rightarrow> 'a option) \<Rightarrow> mstate \<Rightarrow> 'a option) \<Rightarrow> nat \<Rightarrow> (mstate \<Rightarrow> 'a option) \<Rightarrow> mstate \<Rightarrow> 'a option"
where
  "star_iter step 0 k s = k s"
| "star_iter step (Suc n) k s =
     (case step (\<lambda>s'. if fst s < fst s' then star_iter step n k s' else None) s of
        Some r \<Rightarrow> Some r
      | None \<Rightarrow> k s)"

primrec rmatch :: "regex \<Rightarrow> (mstate \<Rightarrow> 'a option) \<Rightarrow> mstate \<Rightarrow> 'a option" where
  "rmatch (Chr cs) k s =
     (case fst (snd s) of
        [] \<Rightarrow> None
      | c # rest \<Rightarrow> if in_cset cs c then k (Suc (fst s), rest, snd (snd s)) else None)"
| "rmatch (Cat a b) k s = rmatch a (rmatch b k) s"
| "rmatch (Alt a b) k s =
     (case rmatch a k s of Some r \<Rightarrow> Some r | None \<Rightarrow> rmatch b k s)"
| "rmatch (Star a) k s = star_iter (rmatch a) (length (fst (snd s))) k s"
| "rmatch (Grp n a) k s =
     rmatch a (\<lambda>s'. k (fst s', fst (snd s'),
                         (snd (snd s'))(n \<mapsto> take (fst s' - fst s) (fst (snd s))))) s"
| "rmatch Bol k s = (if fst s = 0 then k s else None)"
| "rmatch Eol k s = (if fst (snd s) = [] \<or> fst (snd s) = [10] then k s else None)"
| "rmatch Eps k s = k s"

text \<open>\<^verbatim>\<open>re.match(p, text)\<close>: the groups of the match at the start of the text.\<close>

definition re_match :: "regex \<Rightarrow> pystr \<Rightarrow> groups option" where
  "re_match p t = rmatch p (\<lambda>s. Some (snd (snd s))) (0, t, Map.empty)"

text \<open>\<^verbatim>\<open>re.search(p, text)\<close>: the match at the leftmost position that has one.\<close>

fun search_from :: "regex \<Rightarrow> nat \<Rightarrow> pystr \<Rightarrow> groups option" where
  "search_from p i t =
     (case rmatch p (\<lambda>s. Some (snd (snd s))) (i, t, Map.empty) of
        Some g \<Rightarrow> Some g
      | None \<Rightarrow> (case t of [] \<Rightarrow> None | c # rest \<Rightarrow> search_from p (Suc i) rest))"

definition re_search :: "regex \<Rightarrow> pystr \<Rightarrow> groups option" where
  "re_search p t = search_from p 0 t"

text \<open>\<^verbatim>\<open>m.group(n)\<close> of a group that took part in the match.\<close>

definition group :: "groups \<Rightarrow> nat \<Rightarrow> pystr" where
  "group g n = (case g n of None \<Rightarrow> [] | Some s \<Rightarrow> s)"

section \<open>Segmentation: \<^verbatim>\<open>structure_chapters.py\<close>\<close>

text \<open>The pattern \<^verbatim>\<open>(\d{2})-\d+\<close> of \<^verbatim>\<open>extract_lesson_number\<close>.\<close>

definition marker_re :: regex where
  "marker_re = Cat (Grp 1 (Cat (Chr Digit) (Chr Digit))) (Cat (Lit 45) (Plus (Chr Digit)))"

definition extract_lesson_number :: "pystr \<Rightarrow> nat option" where
  "extract_lesson_number text =
     (case re_search marker_re text of
        Some m \<Rightarrow> Some (py_int (group m 1))
      | None \<Rightarrow> None)"

text \<open>
  The three variables of the grouping loop: the dictionary \<^verbatim>\<open>chapters\<close>, the lesson
  being accumulated (0 before the first one) and its page texts.
\<close>

record seg_state =
  chapters :: "nat \<rightharpoonup> pystr"
  current_lesson :: nat
  current_content :: "pystr list"

definition unit_separator :: pystr where
  "unit_separator = [10, 10]"

text \<open>
  \<^verbatim>\<open>if current_content and current_lesson > 0:
       chapters[current_lesson] = '\n\n'.join(current_content)\<close>
\<close>

definition save_lesson :: "seg_state \<Rightarrow> (nat \<rightharpoonup> pystr)" where
  "save_lesson s =
     (if current_content s \<noteq> [] \<and> current_lesson s > 0
      then (chapters s)(current_lesson s \<mapsto> py_join unit_separator (current_content s))
      else chapters s)"

definition start_lesson :: "seg_state \<Rightarrow> nat \<Rightarrow> pystr \<Rightarrow> seg_state" where
  "start_lesson s lesson_num page_text =
     \<lparr>chapters = save_lesson s, current_lesson = lesson_num,
      current_content = [py_strip page_text]\<rparr>"

definition continue_lesson :: "seg_state \<Rightarrow> pystr \<Rightarrow> seg_state" where
  "continue_lesson s page_text =
     (if py_strip page_text \<noteq> []
      then s\<lparr>current_content := current_content s @ [py_strip page_text]\<rparr>
      else s)"

text \<open>
  One iteration of the loop of \<^verbatim>\<open>structure_into_chapters\<close>. The test
  \<^verbatim>\<open>lesson_num and lesson_num <= 15 and lesson_num != current_lesson\<close> is false for
  \<^verbatim>\<open>None\<close> and for 0.
\<close>

definition structure_step :: "seg_state \<Rightarrow> pystr \<Rightarrow> seg_state" where
  "structure_step s page_text =
     (case extract_lesson_number page_text of
        None \<Rightarrow> continue_lesson s page_text
      | Some lesson_num \<Rightarrow>
          if lesson_num \<noteq> 0 \<and> lesson_num \<le> 15 \<and> lesson_num \<noteq> current_lesson s
          then start_lesson s lesson_num page_text
          else continue_lesson s page_text)"

fun structure_loop :: "seg_state \<Rightarrow> pystr list \<Rightarrow> seg_state" where
  "structure_loop s [] = s"
| "structure_loop s (page_text # pages) = structure_loop (structure_step s page_text) pages"

definition seg_init :: seg_state where
  "seg_init = \<lparr>chapters = Map.empty, current_lesson = 0, current_content = []\<rparr>"

definition structure_into_chapters :: "pystr list \<Rightarrow> (nat \<rightharpoonup> pystr)" where
  "structure_into_chapters pages = save_lesson (structure_loop seg_init pages)"

section \<open>The second grouping loop: \<^verbatim>\<open>extract_chapters_from_ocr\<close> in \<^verbatim>\<open>correct_chapters.py\<close>\<close>

text \<open>
  The loop of \<^verbatim>\<open>extract_chapters_from_ocr\<close> over the pages (the function reads them from
  the OCR file first). It uses the same pattern and the same three variables; its test
  is \<^verbatim>\<open>if match:\<close> and then \<^verbatim>\<open>lesson_num <= 15 and lesson_num != current_lesson\<close>.
\<close>

definition extract_step :: "seg_state \<Rightarrow> pystr \<Rightarrow> seg_state" where
  "extract_step s page_text =
     (case re_search marker_re page_text of
        Some m \<Rightarrow>
          (let lesson_num = py_int (group m 1) in
           if lesson_num \<le> 15 \<and> lesson_num \<noteq> current_lesson s
           then start_lesson s lesson_num page_text
           else continue_lesson s page_text)
      | None \<Rightarrow> continue_lesson s page_text)"

fun extract_loop :: "seg_state \<Rightarrow> pystr list \<Rightarrow> seg_state" where
  "extract_loop s [] = s"
| "extract_loop s (page_text # pages) = extract_loop (extract_step s page_text) pages"

definition extract_chapters_from_ocr :: "pystr list \<Rightarrow> (nat \<rightharpoonup> pystr)" where
  "extract_chapters_from_ocr pages = save_lesson (extract_loop seg_init pages)"

section \<open>Text files\<close>

text \<open>
  The directory \<^verbatim>\<open>corrected_chapters\<close> is a map from the lesson number \<open>i\<close> to the text
  stored in \<^verbatim>\<open>chapter_{i:02d}.txt\<close>. Reading a file opened in text mode translates the
  line endings \<^verbatim>\<open>\r\n\<close> and \<^verbatim>\<open>\r\<close> to \<^verbatim>\<open>\n\<close>; writing stores the text as it is.
\<close>

type_synonym chapter_files = "nat \<rightharpoonup> pystr"

fun read_text :: "pystr \<Rightarrow> pystr" where
  "read_text [] = []"
| "read_text [c] = (if c = 13 then [10] else [c])"
| "read_text (c # d # cs) =
     (if c = 13 \<and> d = 10 then 10 # read_text cs
      else if c = 13 then 10 # read_text (d # cs)
      else c # read_text (d # cs))"

section \<open>Vocabulary extraction: \<^verbatim>\<open>extract_vocabulary.py\<close>\<close>

definition POS_MAPPING :: "(pystr \<times> pystr) list" where
  "POS_MAPPING = map (\<lambda>(k, v). (ascii k, ascii v))
     [(''pron.'', ''pronoun''),
      (''pron'', ''pronoun''),
      (''adj.'', ''adjective''),
      (''adj'', ''adjective''),
      (''v.'', ''verb''),
      (''verb'', ''verb''),
      (''n.'', ''noun''),
      (''noun'', ''noun''),
      (''adv.'', ''adverb''),
      (''adv'', ''adverb''),
      (''prep.'', ''preposition''),
      (''prep'', ''preposition''),
      (''conj.'', ''conjunction''),
      (''conj'', ''conjunction''),
      (''part.'', ''particle''),
      (''particle'', ''particle''),
      (''num.'', ''numeral''),
      (''numeral'', ''numeral''),
      (''m.'', ''measure_word''),
      (''mw.'', ''measure_word''),
      (''measure word'', ''measure_word''),
      (''interj.'', ''interjection''),
      (''interj'', ''interjection'')]"

text \<open>
  \<^verbatim>\<open>str.lower\<close>, character by character. It is exact on the characters whose lowercase
  holds an ASCII character (A to Z, U+0130 and the Kelvin sign U+212A) and on every
  character without case. Any other cased character is left as it is: its lowercase
  is, like the character, outside ASCII, and the result is only ever looked up among the
  ASCII keys of \<open>POS_MAPPING\<close>.
\<close>

definition lower_char :: "nat \<Rightarrow> pystr" where
  "lower_char c =
     (if 65 \<le> c \<and> c \<le> 90 then [c + 32]
      else if c = 304 then [105, 775]
      else if c = 8490 then [107]
      else [c])"

definition py_lower :: "pystr \<Rightarrow> pystr" where
  "py_lower s = concat (map lower_char s)"

definition normalize_pos :: "pystr \<Rightarrow> pystr" where
  "normalize_pos pos =
     (let pos_lower = py_strip (py_lower pos) in
      case map_of POS_MAPPING pos_lower of
        Some v \<Rightarrow> v
      | None \<Rightarrow> ascii ''other'')"

text \<open>The dictionary that \<^verbatim>\<open>parse_vocab_line\<close> returns.\<close>

record entry =
  word :: pystr
  pinyin :: pystr
  part_of_speech :: pystr
  meaning :: pystr

text \<open>Sequences and alternatives of a pattern, in the order written.\<close>

definition seq :: "regex list \<Rightarrow> regex" where
  "seq rs = foldr Cat rs Eps"

definition alternatives :: "regex list \<Rightarrow> regex" where
  "alternatives rs = foldr Alt rs (Chr (OneOf []))"

text \<open>
  A lower-case ASCII letter of a pattern compiled with \<^verbatim>\<open>re.IGNORECASE\<close>: it matches
  itself, its capital, and for \<^verbatim>\<open>i\<close>, \<^verbatim>\<open>k\<close> and \<^verbatim>\<open>s\<close> the further characters that Unicode
  case folding identifies with them.
\<close>

definition ignorecase :: "char \<Rightarrow> regex" where
  "ignorecase ch =
     (let c = of_char ch in
      Chr (OneOf ([c - 32, c]
        @ (if c = 105 then [304, 305] else if c = 107 then [8490] else if c = 115 then [383] else []))))"

definition word_ignorecase :: "string \<Rightarrow> regex" where
  "word_ignorecase w = seq (map ignorecase w)"

text \<open>
  The class \<^verbatim>\<open>[a-zA-Z...]\<close> of pinyin letters under \<^verbatim>\<open>re.IGNORECASE\<close>: the letters and
  the accented vowels written in the pattern, the capitals of those vowels, and the four
  characters that case folding identifies with \<^verbatim>\<open>i\<close>, \<^verbatim>\<open>k\<close> and \<^verbatim>\<open>s\<close>.
\<close>

definition pinyin_vowels :: "nat list" where
  "pinyin_vowels =
     [252, 470, 472, 474, 476, 257, 225, 462, 224, 275, 233, 283, 232, 299, 237, 464, 236,
      333, 243, 466, 242, 363, 250, 468, 249]"

definition pinyin_vowel_capitals :: "nat list" where
  "pinyin_vowel_capitals =
     [220, 469, 471, 473, 475, 256, 193, 461, 192, 274, 201, 282, 200, 298, 205, 463, 204,
      332, 211, 465, 210, 362, 218, 467, 217]"

definition pinyin_class :: cset where
  "pinyin_class =
     OneOf ([97..<123] @ [65..<91] @ pinyin_vowels @ pinyin_vowel_capitals @ [304, 305, 383, 8490])"

text \<open>\<^verbatim>\<open>[...]+(?:\s+[...]+)?\<close>: one or two syllables.\<close>

definition pinyin_re :: regex where
  "pinyin_re =
     Cat (Plus (Chr pinyin_class)) (Opt (Cat (Plus (Chr Space)) (Plus (Chr pinyin_class))))"

text \<open>\<^verbatim>\<open>(?:pron|adj|v|n|adv|prep|conj|part|num|m|mw|interj)\.?\<close>\<close>

definition pos_re :: regex where
  "pos_re =
     Cat (alternatives (map word_ignorecase
            [''pron'', ''adj'', ''v'', ''n'', ''adv'', ''prep'', ''conj'', ''part'', ''num'',
             ''m'', ''mw'', ''interj'']))
         (Opt (Lit 46))"

text \<open>\<^verbatim>\<open>^(\d+)\.\s*(.+)$\<close>, matched against the first column of a delimited line.\<close>

definition first_column_re :: regex where
  "first_column_re =
     seq [Bol, Grp 1 (Plus (Chr Digit)), Lit 46, Star (Chr Space), Grp 2 (Plus (Chr Dot)), Eol]"

text \<open>\<^verbatim>\<open>pattern\<close>: number, word, pinyin, part of speech, meaning.\<close>

definition pattern :: regex where
  "pattern =
     seq [Bol, Grp 1 (Plus (Chr Digit)), Lit 46, Star (Chr Space), Grp 2 (Plus (Chr NotSpace)),
          Plus (Chr Space), Grp 3 pinyin_re, Plus (Chr Space), Grp 4 pos_re,
          Star (Chr Space), Grp 5 (Plus (Chr Dot)), Eol]"

text \<open>\<^verbatim>\<open>pattern2\<close>: the same without the part of speech.\<close>

definition pattern2 :: regex where
  "pattern2 =
     seq [Bol, Grp 1 (Plus (Chr Digit)), Lit 46, Star (Chr Space), Grp 2 (Plus (Chr NotSpace)),
          Plus (Chr Space), Grp 3 pinyin_re, Plus (Chr Space), Grp 4 (Plus (Chr Dot)), Eol]"

text \<open>The pattern that looks for a part of speech at the start of the meaning.\<close>

definition pos_prefix_re :: regex where
  "pos_prefix_re = seq [Bol, Grp 1 pos_re, Star (Chr Space), Grp 2 (Plus (Chr Dot)), Eol]"

text \<open>
  The first form of \<^verbatim>\<open>parse_vocab_line\<close>, the block under \<^verbatim>\<open>if '|' in line:\<close>. Its
  value is what the block returns; \<open>None\<close> when control leaves the block without a
  \<^verbatim>\<open>return\<close>.
\<close>

definition delimited_form :: "pystr \<Rightarrow> entry option" where
  "delimited_form line =
     (if 124 \<in> set line then
        (let parts = py_split 124 line in
         if length parts \<ge> 3 then
           (case re_match first_column_re (py_strip (parts ! 0)) of
              Some first_match \<Rightarrow>
                (let chinese = group first_match 2;
                     pinyin = py_strip (parts ! 1);
                     pos = (if length parts \<ge> 4
                            then (if py_strip (parts ! 2) \<noteq> [] then py_strip (parts ! 2)
                                  else ascii ''other'')
                            else ascii ''other'');
                     meaning = (if length parts \<ge> 4 then py_strip (parts ! 3)
                                else py_strip (parts ! 2))
                 in if chinese \<noteq> [] \<and> pinyin \<noteq> []
                    then Some \<lparr>word = py_strip chinese, pinyin = py_strip pinyin,
                               part_of_speech = normalize_pos pos, meaning = py_strip meaning\<rparr>
                    else None)
            | None \<Rightarrow> None)
         else None)
      else None)"

text \<open>The second form: \<^verbatim>\<open>pattern\<close> on the stripped line.\<close>

definition tagged_form :: "pystr \<Rightarrow> entry option" where
  "tagged_form line =
     (case re_match pattern (py_strip line) of
        Some m \<Rightarrow>
          Some \<lparr>word = py_strip (group m 2), pinyin = py_strip (group m 3),
                part_of_speech = normalize_pos (group m 4), meaning = py_strip (group m 5)\<rparr>
      | None \<Rightarrow> None)"

text \<open>The third form: \<^verbatim>\<open>pattern2\<close>, and a part of speech peeled off the meaning.\<close>

definition untagged_form :: "pystr \<Rightarrow> entry option" where
  "untagged_form line =
     (case re_match pattern2 (py_strip line) of
        Some m \<Rightarrow>
          (case re_match pos_prefix_re (group m 4) of
             Some pos_match \<Rightarrow>
               Some \<lparr>word = py_strip (group m 2), pinyin = py_strip (group m 3),
                     part_of_speech = normalize_pos (group pos_match 1),
                     meaning = py_strip (group pos_match 2)\<rparr>
           | None \<Rightarrow>
               Some \<lparr>word = py_strip (group m 2), pinyin = py_strip (group m 3),
                     part_of_speech = normalize_pos (ascii ''other''),
                     meaning = py_strip (group m 4)\<rparr>)
      | None \<Rightarrow> None)"

definition parse_vocab_line :: "pystr \<Rightarrow> entry option" where
  "parse_vocab_line line =
     (case delimited_form line of
        Some e \<Rightarrow> Some e
      | None \<Rightarrow>
          (case tagged_form line of
             Some e \<Rightarrow> Some e
           | None \<Rightarrow> untagged_form line))"

text \<open>An entry with the chapter and the source that \<^verbatim>\<open>extract_vocab_from_chapter\<close> adds.\<close>

record vocab_entry = entry +
  "chapter" :: nat
  source :: pystr

text \<open>\<^verbatim>\<open>^\d+\.\s+\S\<close>: the test for a vocabulary line.\<close>

definition candidate_re :: regex where
  "candidate_re = seq [Bol, Plus (Chr Digit), Lit 46, Plus (Chr Space), Chr NotSpace]"

definition startswith :: "nat \<Rightarrow> pystr \<Rightarrow> bool" where
  "startswith c line = (case line of [] \<Rightarrow> False | x # rest \<Rightarrow> x = c)"

text \<open>The body of the loop over the lines: the entries one line contributes.\<close>

definition vocab_of_line :: "nat \<Rightarrow> pystr \<Rightarrow> vocab_entry list" where
  "vocab_of_line chapter_num line =
     (if py_strip line = [] \<or> startswith 35 line \<or> startswith 124 line then []
      else if re_match candidate_re line \<noteq> None then
        (case parse_vocab_line line of
           Some e \<Rightarrow>
             [\<lparr>word = word e, pinyin = pinyin e, part_of_speech = part_of_speech e,
               meaning = meaning e, chapter = chapter_num, source = ascii ''hsk1''\<rparr>]
         | None \<Rightarrow> [])
      else [])"

text \<open>\<^verbatim>\<open>extract_vocab_from_chapter\<close>, from the content read from the chapter file.\<close>

definition extract_vocab_from_chapter :: "pystr \<Rightarrow> nat \<Rightarrow> vocab_entry list" where
  "extract_vocab_from_chapter content chapter_num =
     concat (map (vocab_of_line chapter_num) (py_split 10 content))"

text \<open>
  The state of the de-duplication loops of \<^verbatim>\<open>extract_all_chapters\<close> and of
  \<^verbatim>\<open>process_all_chapters\<close> (where the list is called \<^verbatim>\<open>all_atoms\<close>): the accepted
  entries, the set \<^verbatim>\<open>seen_words\<close>, and the words printed as skipped duplicates, each
  with the chapter number printed beside it.
\<close>

record 'e collect_state =
  all_vocab :: "'e list"
  seen_words :: "pystr set"
  skipped :: "(pystr \<times> nat) list"

text \<open>
  \<^verbatim>\<open>if entry['word'] not in seen_words:
       all_vocab.append(entry); seen_words.add(entry['word'])
   else:
       print(f"  Skipping duplicate: {entry['word']} (ch.{i})")\<close>
\<close>

definition add_unique ::
  "nat \<Rightarrow> ('z entry_scheme) collect_state \<Rightarrow> 'z entry_scheme \<Rightarrow> ('z entry_scheme) collect_state"
where
  "add_unique i s e =
     (if word e \<notin> seen_words s
      then s\<lparr>all_vocab := all_vocab s @ [e], seen_words := insert (word e) (seen_words s)\<rparr>
      else s\<lparr>skipped := skipped s @ [(word e, i)]\<rparr>)"

definition extract_chapter_step ::
  "chapter_files \<Rightarrow> vocab_entry collect_state \<Rightarrow> nat \<Rightarrow> vocab_entry collect_state"
where
  "extract_chapter_step chapters_dir s i =
     (case chapters_dir i of
        None \<Rightarrow> s
      | Some stored \<Rightarrow>
          foldl (add_unique i) s (extract_vocab_from_chapter (read_text stored) i))"

definition extract_all_run :: "chapter_files \<Rightarrow> vocab_entry collect_state" where
  "extract_all_run chapters_dir =
     foldl (extract_chapter_step chapters_dir)
       \<lparr>all_vocab = [], seen_words = {}, skipped = []\<rparr> [1..<16]"

definition extract_all_chapters :: "chapter_files \<Rightarrow> vocab_entry list" where
  "extract_all_chapters chapters_dir = all_vocab (extract_all_run chapters_dir)"

section \<open>Atom extraction: \<^verbatim>\<open>extract_atoms.py\<close>\<close>

record atom_entry = vocab_entry +
  tag :: pystr

text \<open>
  \<^verbatim>\<open>load_existing_hsk_words\<close>: the words of the entries of \<^verbatim>\<open>hsk1_vocabulary.json\<close>, the
  list that \<^verbatim>\<open>extract_vocabulary.py\<close> wrote, or the empty set when the file is missing.
  \<^verbatim>\<open>process_all_chapters\<close> calls it for its set \<^verbatim>\<open>existing_hsk_words\<close>.
\<close>

definition load_existing_hsk_words :: "vocab_entry list option \<Rightarrow> pystr set" where
  "load_existing_hsk_words vocab_file =
     (case vocab_file of None \<Rightarrow> {} | Some vocab \<Rightarrow> word ` set vocab)"

text \<open>
  The language model is outside the program. \<open>llm chapter_num content existing\<close> stands
  for the call and the parsing of its answer: the list of atoms that \<^verbatim>\<open>json.loads\<close>
  yields, each with the four fields of an entry, or \<open>None\<close> when the call raises. An
  exception inside the \<^verbatim>\<open>try\<close> block makes \<^verbatim>\<open>extract_atoms_with_claude\<close> return the
  empty list, and one raised before it (the client cannot be created) is caught by
  \<^verbatim>\<open>process_all_chapters\<close>, which stores the empty list for the chapter: either way the
  chapter contributes no atoms.
\<close>

type_synonym atom_service = "nat \<Rightarrow> pystr \<Rightarrow> pystr set \<Rightarrow> entry list option"

definition extract_atoms_with_claude ::
  "atom_service \<Rightarrow> nat \<Rightarrow> pystr \<Rightarrow> pystr set \<Rightarrow> atom_entry list"
where
  "extract_atoms_with_claude llm chapter_num chapter_content existing_hsk_words =
     (if py_strip chapter_content = [] then []
      else (case llm chapter_num chapter_content existing_hsk_words of
              None \<Rightarrow> []
            | Some atoms \<Rightarrow>
                map (\<lambda>a. \<lparr>word = word a, pinyin = pinyin a, part_of_speech = part_of_speech a,
                           meaning = meaning a, chapter = chapter_num, source = ascii ''hsk1'',
                           tag = ascii ''atom''\<rparr>) atoms))"

text \<open>
  \<^verbatim>\<open>read_chapter\<close> gives the empty string for a missing file, and the loop keeps a chapter
  only \<^verbatim>\<open>if content:\<close>.
\<close>

definition read_chapter :: "chapter_files \<Rightarrow> nat \<Rightarrow> pystr" where
  "read_chapter files chapter_num =
     (case files chapter_num of None \<Rightarrow> [] | Some stored \<Rightarrow> read_text stored)"

definition atom_chapters :: "chapter_files \<Rightarrow> (nat \<rightharpoonup> pystr)" where
  "atom_chapters files =
     foldl (\<lambda>chs i. if read_chapter files i \<noteq> [] then chs(i \<mapsto> read_chapter files i) else chs)
       Map.empty [1..<16]"

text \<open>
  The futures complete in some order \<open>completed\<close>; each completion stores the atoms of
  its chapter in \<^verbatim>\<open>chapter_results\<close>.
\<close>

definition chapter_results ::
  "atom_service \<Rightarrow> pystr set \<Rightarrow> (nat \<rightharpoonup> pystr) \<Rightarrow> nat list \<Rightarrow> (nat \<rightharpoonup> atom_entry list)"
where
  "chapter_results llm existing_hsk_words chs completed =
     foldl (\<lambda>res num.
              case chs num of
                None \<Rightarrow> res
              | Some content \<Rightarrow>
                  res(num \<mapsto> extract_atoms_with_claude llm num content existing_hsk_words))
       Map.empty completed"

text \<open>
  The loop \<^verbatim>\<open>for chapter_num in sorted(chapter_results.keys())\<close>; the keys are chapter
  numbers between 1 and 15.
\<close>

definition combine_step ::
  "(nat \<rightharpoonup> atom_entry list) \<Rightarrow> atom_entry collect_state \<Rightarrow> nat \<Rightarrow> atom_entry collect_state"
where
  "combine_step res s chapter_num =
     (case res chapter_num of
        None \<Rightarrow> s
      | Some atoms \<Rightarrow> foldl (add_unique chapter_num) s atoms)"

definition process_all_run ::
  "atom_service \<Rightarrow> pystr set \<Rightarrow> chapter_files \<Rightarrow> nat list \<Rightarrow> atom_entry collect_state"
where
  "process_all_run llm existing_hsk_words files completed =
     foldl (combine_step (chapter_results llm existing_hsk_words (atom_chapters files) completed))
       \<lparr>all_vocab = [], seen_words = existing_hsk_words, skipped = []\<rparr> [1..<16]"

definition process_all_chapters ::
  "atom_service \<Rightarrow> pystr set \<Rightarrow> chapter_files \<Rightarrow> nat list \<Rightarrow> atom_entry list"
where
  "process_all_chapters llm existing_hsk_words files completed =
     all_vocab (process_all_run llm existing_hsk_words files completed)"

text \<open>
  \<^verbatim>\<open>main\<close>, when the directory of the chapters exists:
  \<^verbatim>\<open>atoms.sort(key=lambda x: (x['chapter'], x['word']))\<close>, a stable sort on the pair; the
  sorted list is then written to \<^verbatim>\<open>hsk1_atoms.json\<close>.
\<close>

definition atoms_output ::
  "atom_service \<Rightarrow> pystr set \<Rightarrow> chapter_files \<Rightarrow> nat list \<Rightarrow> atom_entry list"
where
  "atoms_output llm existing_hsk_words files completed =
     sort_key (\<lambda>x. (chapter x, word x)) (process_all_chapters llm existing_hsk_words files completed)"

section \<open>Correction: \<^verbatim>\<open>correct_chapters.py\<close>\<close>

datatype failure = IndexError | ServiceError

text \<open>
  The corrector is outside the program. \<open>service chapter_num chapter_content context\<close>
  stands for the request built from the prompt (which depends on these three values
  only) and is the corrected text or a failure. \<^verbatim>\<open>correct_chapter_with_claude\<close> indexes
  the sixteen Chinese numerals with the chapter number before it calls the service.
\<close>

type_synonym corrector = "nat \<Rightarrow> pystr \<Rightarrow> pystr \<Rightarrow> failure + pystr"

definition correct_chapter_with_claude ::
  "corrector \<Rightarrow> nat \<Rightarrow> pystr \<Rightarrow> pystr \<Rightarrow> failure + (nat \<times> pystr)"
where
  "correct_chapter_with_claude service chapter_num chapter_content structure_context =
     (if chapter_num < 16 then
        (case service chapter_num chapter_content (take 4000 structure_context) of
           Inl e \<Rightarrow> Inl e
         | Inr corrected \<Rightarrow> Inr (chapter_num, corrected))
      else Inl IndexError)"

text \<open>
  Writing a chapter file: \<^verbatim>\<open>open(output_path, 'w', encoding='utf-8')\<close> followed by
  \<^verbatim>\<open>f.write(corrected_content)\<close>. Opening creates the file or empties it. \<^verbatim>\<open>write\<close>
  encodes the whole text before any of it reaches the file, and UTF-8 has no encoding
  for the surrogate code points U+D800 to U+DFFF: a text that holds one makes \<^verbatim>\<open>write\<close>
  raise \<^verbatim>\<open>UnicodeEncodeError\<close>, and the file is left empty. Whether the operating system
  opens the file and stores the bytes is not decided by the program:
  \<open>disk num content\<close> is what it does when \<open>content\<close> is written to the file of chapter
  \<open>num\<close>. It opens the file and stores the text, or it refuses to open the file, which
  then stays as it was, or it opens the file and fails later, leaving some text \<open>stored\<close>
  in it. \<open>write_text\<close> returns whether the write went through, and the files after it.
\<close>

datatype write_outcome = Written | Open_failed | Write_failed pystr

type_synonym disk = "nat \<Rightarrow> pystr \<Rightarrow> write_outcome"

definition utf8_encodable :: "pystr \<Rightarrow> bool" where
  "utf8_encodable content = list_all (\<lambda>c. c < 55296 \<or> 57343 < c) content"

definition write_text :: "disk \<Rightarrow> chapter_files \<Rightarrow> nat \<Rightarrow> pystr \<Rightarrow> bool \<times> chapter_files" where
  "write_text disk files num content =
     (case disk num content of
        Open_failed \<Rightarrow> (False, files)
      | Write_failed stored \<Rightarrow>
          (False, files(num \<mapsto> (if utf8_encodable content then stored else [])))
      | Written \<Rightarrow>
          (if utf8_encodable content then (True, files(num \<mapsto> content))
           else (False, files(num \<mapsto> []))))"

text \<open>
  The state of a run: the dictionary \<^verbatim>\<open>results\<close>, the files of the output directory,
  the chapters for which the service was called, and the chapters printed as failed.
\<close>

record run_state =
  results :: "nat \<rightharpoonup> pystr"
  output_dir :: chapter_files
  invoked :: "nat list"
  failed :: "nat list"

text \<open>
  One iteration of \<^verbatim>\<open>for future in as_completed(future_to_chapter)\<close>, for the future of
  chapter \<open>chapter_num\<close>. When the future holds a result, the result is stored in
  \<^verbatim>\<open>results\<close> first and written to the chapter file next, inside the same \<^verbatim>\<open>try\<close>: a
  write that fails leaves the entry in \<^verbatim>\<open>results\<close> and the chapter is printed as failed,
  as it is when the future holds an exception. The service has been called for the
  chapter unless indexing the numerals failed first.
\<close>

definition complete_future ::
  "corrector \<Rightarrow> disk \<Rightarrow> (nat \<rightharpoonup> pystr) \<Rightarrow> pystr \<Rightarrow> run_state \<Rightarrow> nat \<Rightarrow> run_state"
where
  "complete_future service disk chs structure_context s chapter_num =
     (case chs chapter_num of
        None \<Rightarrow> s
      | Some content \<Rightarrow>
          (let s' = (if chapter_num < 16 then s\<lparr>invoked := invoked s @ [chapter_num]\<rparr> else s) in
           case correct_chapter_with_claude service chapter_num content structure_context of
             Inr (num, corrected_content) \<Rightarrow>
               (let s'' = s'\<lparr>results := (results s')(num \<mapsto> corrected_content)\<rparr>;
                    (stored, files') = write_text disk (output_dir s'') num corrected_content
                in if stored then s''\<lparr>output_dir := files'\<rparr>
                   else s''\<lparr>output_dir := files', failed := failed s'' @ [chapter_num]\<rparr>)
           | Inl e \<Rightarrow> s'\<lparr>failed := failed s' @ [chapter_num]\<rparr>))"

text \<open>
  A task is submitted for every chapter of \<^verbatim>\<open>chapters\<close>, and the futures complete in some
  order \<open>completed\<close>. The run is one in which \<^verbatim>\<open>mkdir\<close> leaves the output directory in
  place and the console prints the messages.
\<close>

definition process_parallel_run ::
  "corrector \<Rightarrow> disk \<Rightarrow> (nat \<rightharpoonup> pystr) \<Rightarrow> pystr \<Rightarrow> chapter_files \<Rightarrow> nat list \<Rightarrow> run_state"
where
  "process_parallel_run service disk chs structure_context files completed =
     foldl (complete_future service disk chs structure_context)
       \<lparr>results = Map.empty, output_dir = files, invoked = [], failed = []\<rparr> completed"

definition process_all_chapters_parallel ::
  "corrector \<Rightarrow> disk \<Rightarrow> (nat \<rightharpoonup> pystr) \<Rightarrow> pystr \<Rightarrow> chapter_files \<Rightarrow> nat list \<Rightarrow> (nat \<rightharpoonup> pystr)"
where
  "process_all_chapters_parallel service disk chs structure_context files completed =
     results (process_parallel_run service disk chs structure_context files completed)"

text \<open>\<^verbatim>\<open>combine_all_chapters\<close>: the text written to \<^verbatim>\<open>hsk1_corrected.txt\<close>.\<close>

definition divider :: pystr where
  "divider = replicate 70 61"

definition chapter_block :: "chapter_files \<Rightarrow> nat \<Rightarrow> pystr list" where
  "chapter_block files i =
     (case files i of
        None \<Rightarrow> []
      | Some stored \<Rightarrow> [[10] @ divider @ [10], read_text stored, [10]])"

definition combine_all_chapters :: "chapter_files \<Rightarrow> pystr" where
  "combine_all_chapters files =
     py_join [10]
       ([ascii ''# HSK 1 - Chapters 1-15 (Corrected)'' @ [10],
         ascii ''# OCR errors fixed, formatting standardized'' @ [10, 10]]
        @ concat (map (chapter_block files) [1..<16]))"

section \<open>Notions used to state the properties\<close>

subsection \<open>Lessons and runs of pages\<close>

text \<open>
  The lesson number that a page makes \<^verbatim>\<open>structure_into_chapters\<close> consider: the number
  detected by \<^verbatim>\<open>extract_lesson_number\<close> when it passes the test
  \<^verbatim>\<open>lesson_num and lesson_num <= 15\<close>.
\<close>

definition lesson_marker :: "pystr \<Rightarrow> nat option" where
  "lesson_marker page_text =
     (case extract_lesson_number page_text of
        None \<Rightarrow> None
      | Some n \<Rightarrow> if n \<noteq> 0 \<and> n \<le> 15 then Some n else None)"

text \<open>
  A run of lesson \<open>L\<close>: after the pages \<open>pre\<close> the loop is not in lesson \<open>L\<close>, page \<open>p\<close>
  carries the marker of \<open>L\<close>, and the pages of \<open>run\<close> carry no marker or that of \<open>L\<close>
  again. The run is closed by the pages \<open>post\<close> when none of them carries the marker of
  \<open>L\<close> and the first of them, if any, carries a marker. \<open>run_text\<close> is the text of the run.
\<close>

definition run_text :: "pystr \<Rightarrow> pystr list \<Rightarrow> pystr" where
  "run_text p run = py_join unit_separator (py_strip p # filter (\<lambda>t. t \<noteq> []) (map py_strip run))"

definition run_of :: "nat \<Rightarrow> pystr list \<Rightarrow> pystr \<Rightarrow> pystr list \<Rightarrow> bool" where
  "run_of L pre p run \<longleftrightarrow>
     lesson_marker p = Some L \<and> current_lesson (structure_loop seg_init pre) \<noteq> L
     \<and> (\<forall>q\<in>set run. lesson_marker q = None \<or> lesson_marker q = Some L)"

definition closed_by :: "nat \<Rightarrow> pystr list \<Rightarrow> bool" where
  "closed_by L post \<longleftrightarrow>
     (\<forall>q\<in>set post. lesson_marker q \<noteq> Some L) \<and> (post = [] \<or> (\<exists>L'. lesson_marker (hd post) = Some L'))"

definition open_run :: "pystr list \<Rightarrow> nat \<Rightarrow> pystr list \<Rightarrow> bool" where
  "open_run ps L content \<longleftrightarrow>
     (\<exists>pre p run. ps = pre @ p # run \<and> run_of L pre p run
        \<and> content = py_strip p # filter (\<lambda>t. t \<noteq> []) (map py_strip run))"

definition closed_run :: "pystr list \<Rightarrow> nat \<Rightarrow> pystr \<Rightarrow> bool" where
  "closed_run ps L body \<longleftrightarrow>
     (\<exists>pre p run post. ps = pre @ p # run @ post \<and> run_of L pre p run
        \<and> closed_by L post \<and> post \<noteq> [] \<and> body = run_text p run)"

subsection \<open>Streams of records\<close>

text \<open>
  The records in the order in which the loops process them: for the vocabulary the
  entries of chapter 1 in line order, then those of chapter 2, and so on; for the atoms
  the lists stored in \<^verbatim>\<open>chapter_results\<close>, in the order of the sorted chapter numbers.
\<close>

definition chapter_stream :: "chapter_files \<Rightarrow> nat \<Rightarrow> vocab_entry list" where
  "chapter_stream chapters_dir i =
     (case chapters_dir i of
        None \<Rightarrow> []
      | Some stored \<Rightarrow> extract_vocab_from_chapter (read_text stored) i)"

definition vocab_stream :: "chapter_files \<Rightarrow> vocab_entry list" where
  "vocab_stream chapters_dir = concat (map (chapter_stream chapters_dir) [1..<16])"

definition atom_stream :: "atom_service \<Rightarrow> pystr set \<Rightarrow> chapter_files \<Rightarrow> nat list \<Rightarrow> atom_entry list" where
  "atom_stream llm existing_hsk_words files completed =
     concat (map (\<lambda>k. case chapter_results llm existing_hsk_words (atom_chapters files) completed k of
                          None \<Rightarrow> []
                        | Some atoms \<Rightarrow> atoms) [1..<16])"

text \<open>
  The record at position \<open>k\<close> of a stream is the first of its word: the word is not in the
  seed set and no earlier record of the stream has it.
\<close>

definition first_of_word :: "pystr set \<Rightarrow> ('z entry_scheme) list \<Rightarrow> nat \<Rightarrow> bool" where
  "first_of_word seed stream k \<longleftrightarrow> word (stream ! k) \<notin> seed \<union> word ` set (take k stream)"

text \<open>
  The order of the claim on an output list: of two consecutive records the first has the
  smaller chapter, or the same chapter and a word that is not greater.
\<close>

definition chapter_word_ordered :: "('z vocab_entry_scheme) list \<Rightarrow> bool" where
  "chapter_word_ordered xs =
     successively (\<lambda>a b. chapter a < chapter b \<or> (chapter a = chapter b \<and> word a \<le> word b)) xs"

subsection \<open>Corrected lessons and the combined document\<close>

text \<open>
  The corrected text of lesson \<open>k\<close>: what \<^verbatim>\<open>correct_chapter_with_claude\<close> returns for it
  when the lesson was dispatched and its correction succeeds.
\<close>

definition corrected :: "corrector \<Rightarrow> (nat \<rightharpoonup> pystr) \<Rightarrow> pystr \<Rightarrow> nat \<Rightarrow> pystr option" where
  "corrected service chs structure_context k =
     (case chs k of
        None \<Rightarrow> None
      | Some content \<Rightarrow>
          (case correct_chapter_with_claude service k content structure_context of
             Inl e \<Rightarrow> None
           | Inr r \<Rightarrow> Some (snd r)))"

text \<open>
  The write of the text \<open>content\<close> to the file of lesson \<open>num\<close> goes through; the file
  of the lesson after the write, when it was \<open>before\<close> (\<open>None\<close> for no file); and the
  correction of lesson \<open>k\<close> succeeds but the write of its text does not.
\<close>

definition written :: "disk \<Rightarrow> nat \<Rightarrow> pystr \<Rightarrow> bool" where
  "written disk num content = fst (write_text disk Map.empty num content)"

definition file_after :: "disk \<Rightarrow> pystr option \<Rightarrow> nat \<Rightarrow> pystr \<Rightarrow> pystr option" where
  "file_after disk before num content =
     snd (write_text disk (Map.empty(num := before)) num content) num"

definition write_failed :: "corrector \<Rightarrow> disk \<Rightarrow> (nat \<rightharpoonup> pystr) \<Rightarrow> pystr \<Rightarrow> nat \<Rightarrow> bool" where
  "write_failed service disk chs structure_context k =
     (case corrected service chs structure_context k of
        None \<Rightarrow> False
      | Some content \<Rightarrow> \<not> written disk k content)"

text \<open>
  The parts of the combined document: the banner, and the section of one lesson, a
  divider line of 70 characters \<^verbatim>\<open>=\<close> followed by the lesson's text.
\<close>

definition banner :: pystr where
  "banner =
     ascii ''# HSK 1 - Chapters 1-15 (Corrected)'' @ [10, 10]
     @ ascii ''# OCR errors fixed, formatting standardized'' @ [10, 10]"

definition lesson_section :: "pystr \<Rightarrow> pystr" where
  "lesson_section content = [10, 10] @ divider @ [10, 10] @ content @ [10, 10]"

subsection \<open>Example inputs\<close>

text \<open>
  The line \<^verbatim>\<open>3. U+8C22 U+8C22 | xi(e)xie | v. | to thank\<close>, and a line that fits the
  delimited form as well as \<^verbatim>\<open>pattern\<close>: \<^verbatim>\<open>1. U+4F60 n(i) pron. you | x | y\<close>.
\<close>

definition thanks_line :: pystr where
  "thanks_line =
     ascii ''3. '' @ [35874, 35874] @ ascii '' | xi'' @ [232] @ ascii ''xie | v. | to thank''"

definition both_forms_line :: pystr where
  "both_forms_line = ascii ''1. '' @ [20320] @ ascii '' n'' @ [464] @ ascii '' pron. you | x | y''"

text \<open>
  Example inputs. A chapter file with the two lines
  \<^verbatim>\<open>1. U+597D | h(a)o | adj. | good\<close> and \<^verbatim>\<open>2. U+4F60 | n(i) | pron. | you\<close>; a chapter
  file in which the word U+4F60 stands on two lines; and a vocabulary file that holds
  the word U+4E94, a model that proposes the atom U+4E94 with another pinyin and meaning,
  and a directory of one chapter file.
\<close>

definition unsorted_dir :: chapter_files where
  "unsorted_dir =
     [1 \<mapsto> ascii ''1. '' @ [22909] @ ascii '' | h'' @ [462] @ ascii ''o | adj. | good'' @ [10]
          @ ascii ''2. '' @ [20320] @ ascii '' | n'' @ [464] @ ascii '' | pron. | you'']"

definition repeated_dir :: chapter_files where
  "repeated_dir =
     [1 \<mapsto> ascii ''1. '' @ [20320] @ ascii '' | n'' @ [464] @ ascii '' | pron. | you'' @ [10]
          @ ascii ''2. '' @ [20320] @ ascii '' | n'' @ [237] @ ascii ''n | pron. | you (polite)'']"

definition five_vocabulary :: "vocab_entry list" where
  "five_vocabulary =
     [\<lparr>word = [20116], pinyin = ascii ''wu3'', part_of_speech = ascii ''numeral'',
       meaning = ascii ''five'', chapter = 2, source = ascii ''hsk1''\<rparr>]"

definition five_service :: atom_service where
  "five_service =
     (\<lambda>chapter_num content existing.
        Some [\<lparr>word = [20116], pinyin = ascii ''w'' @ [468], part_of_speech = ascii ''numeral'',
               meaning = ascii ''the number 5''\<rparr>])"

definition five_files :: chapter_files where
  "five_files = [1 \<mapsto> ascii ''Numbers: '' @ [20116]]"

text \<open>
  Example inputs: three lessons, a corrector that fails for lesson 2 and one that never
  fails, a corrector that fails for lesson 2 and answers lesson 1 with the text
  \<^verbatim>\<open>ok\<close>, a space and the lone surrogate U+D800, an operating system that performs every
  write, and an output directory that already holds a file for each of the three lessons.
\<close>

definition three_lessons :: "nat \<rightharpoonup> pystr" where
  "three_lessons =
     [1 \<mapsto> ascii ''01-1 raw one'', 2 \<mapsto> ascii ''02-1 raw two'', 3 \<mapsto> ascii ''03-1 raw three'']"

definition failing_service :: corrector where
  "failing_service =
     (\<lambda>chapter_num content context.
        if chapter_num = 2 then Inl ServiceError else Inr (ascii ''Corrected: '' @ content))"

definition echo_service :: corrector where
  "echo_service = (\<lambda>chapter_num content context. Inr (ascii ''Corrected: '' @ content))"

definition surrogate_service :: corrector where
  "surrogate_service =
     (\<lambda>chapter_num content context.
        if chapter_num = 2 then Inl ServiceError
        else if chapter_num = 1 then Inr (ascii ''ok '' @ [55296])
        else Inr (ascii ''Corrected: '' @ content))"

definition sound_disk :: disk where
  "sound_disk = (\<lambda>num content. Written)"

definition persisted_dir :: chapter_files where
  "persisted_dir =
     [1 \<mapsto> ascii ''Lesson one'', 2 \<mapsto> ascii ''Lesson two'', 3 \<mapsto> ascii ''Lesson three'']"

section \<open>Evaluation on given inputs\<close>

text \<open>Rules that evaluate the string functions and the matcher on a given text.\<close>

lemmas str_eval = ascii_def py_strip_def py_isspace_def whitespace_points_def unit_separator_def

lemmas re_eval = re_search_def re_match_def Lit_def Plus_def Opt_def py_isdecimal_def
  py_decimal_def decimal_zeros_def group_def py_int_def

lemmas seg_eval = structure_into_chapters_def seg_init_def structure_step_def
  start_lesson_def continue_lesson_def save_lesson_def extract_lesson_number_def marker_re_def

lemmas parse_eval = delimited_form_def tagged_form_def untagged_form_def parse_vocab_line_def
  first_column_re_def pattern_def pattern2_def pos_prefix_re_def pos_re_def pinyin_re_def
  pinyin_class_def pinyin_vowels_def pinyin_vowel_capitals_def seq_def alternatives_def
  word_ignorecase_def ignorecase_def normalize_pos_def POS_MAPPING_def py_lower_def
  lower_char_def Let_def

lemmas vocab_eval = extract_vocab_from_chapter_def vocab_of_line_def candidate_re_def
  startswith_def chapter_stream_def vocab_stream_def

lemmas atom_eval = atom_stream_def chapter_results_def atom_chapters_def read_chapter_def
  extract_atoms_with_claude_def

lemmas run_eval = process_all_chapters_parallel_def process_parallel_run_def complete_future_def
  correct_chapter_with_claude_def corrected_def write_text_def utf8_encodable_def written_def
  file_after_def write_failed_def sound_disk_def Let_def

lemma chapter_numbers:
  "[Suc 0..<16] = [1, 2, 3, 4, 5, 6, 7, 8, 9, 10, 11, 12, 13, 14, 15]"
  by (simp add: upt_rec)

lemma ascii_nonempty: "ascii (c # cs) \<noteq> []"
  by (simp add: ascii_def)

section \<open>Properties of the segmentation\<close>

subsection \<open>The keys of the lesson map\<close>

lemma save_lesson_range:
  assumes "dom (chapters s) \<subseteq> {1..15}" and "current_lesson s \<le> 15"
  shows "dom (save_lesson s) \<subseteq> {1..15}"
proof
  fix k
  assume "k \<in> dom (save_lesson s)"
  then have "k \<in> dom (chapters s) \<or> (k = current_lesson s \<and> 0 < current_lesson s)"
    by (auto simp: save_lesson_def split: if_splits)
  with assms show "k \<in> {1..15}"
    by auto
qed

lemma structure_step_range:
  assumes "dom (chapters s) \<subseteq> {1..15}" and "current_lesson s \<le> 15"
  shows "dom (chapters (structure_step s p)) \<subseteq> {1..15} \<and> current_lesson (structure_step s p) \<le> 15"
  using assms save_lesson_range [OF assms]
  by (simp add: structure_step_def start_lesson_def continue_lesson_def split: option.split)

lemma structure_loop_range:
  "dom (chapters s) \<subseteq> {1..15} \<Longrightarrow> current_lesson s \<le> 15 \<Longrightarrow>
   dom (chapters (structure_loop s pages)) \<subseteq> {1..15} \<and> current_lesson (structure_loop s pages) \<le> 15"
proof (induction pages arbitrary: s)
  case Nil
  then show ?case by simp
next
  case (Cons p pages)
  have step: "dom (chapters (structure_step s p)) \<subseteq> {1..15}
      \<and> current_lesson (structure_step s p) \<le> 15"
    using Cons.prems by (rule structure_step_range)
  show ?case
    using Cons.IH [of "structure_step s p"] step by simp
qed

text \<open>
  Claim C4. Whatever the page texts are, every key of the lesson map that
  \<^verbatim>\<open>structure_into_chapters\<close> returns lies in 1..15: 0 is never a key and no key
  exceeds 15. A page on which the detected two-digit number is 0 or above 15 starts no
  lesson: the loop treats it as it treats a page without a marker.
\<close>

theorem segmenter_keys_in_range:
  "dom (structure_into_chapters pages) \<subseteq> {1..15}
   \<and> (extract_lesson_number p = Some n \<longrightarrow> n = 0 \<or> 15 < n
        \<longrightarrow> structure_step s p = continue_lesson s p)"
proof -
  let ?s = "structure_loop seg_init pages"
  have "dom (chapters ?s) \<subseteq> {1..15} \<and> current_lesson ?s \<le> 15"
    by (rule structure_loop_range) (simp_all add: seg_init_def)
  then have "dom (save_lesson ?s) \<subseteq> {1..15}"
    using save_lesson_range [of ?s] by blast
  then show ?thesis
    by (auto simp: structure_into_chapters_def structure_step_def)
qed

lemma noise_page: "extract_lesson_number (ascii ''39-1 noise'') = Some 39"
  by (simp add: seg_eval re_eval str_eval)

theorem segmenter_keys_in_range_witness:
  "dom (structure_into_chapters [ascii ''01-1 one'', ascii ''39-1 noise'']) \<subseteq> {1..15}
   \<and> structure_step seg_init (ascii ''39-1 noise'') = continue_lesson seg_init (ascii ''39-1 noise'')"
  using segmenter_keys_in_range
    [of "[ascii ''01-1 one'', ascii ''39-1 noise'']" "ascii ''39-1 noise''" 39 seg_init]
  by (simp add: noise_page)

subsection \<open>Pages without a valid marker\<close>

lemma structure_loop_no_marker:
  assumes "\<forall>p\<in>set pages. \<forall>n. extract_lesson_number p = Some n \<longrightarrow> n = 0 \<or> 15 < n"
    and "chapters s = Map.empty" and "current_lesson s = 0"
  shows "chapters (structure_loop s pages) = Map.empty \<and> current_lesson (structure_loop s pages) = 0"
  using assms
proof (induction pages arbitrary: s)
  case Nil
  then show ?case by simp
next
  case (Cons p pages)
  have step: "chapters (structure_step s p) = Map.empty \<and> current_lesson (structure_step s p) = 0"
  proof (cases "extract_lesson_number p")
    case None
    then show ?thesis
      using Cons.prems by (simp add: structure_step_def continue_lesson_def)
  next
    case (Some n)
    with Cons.prems have "n = 0 \<or> 15 < n" by simp
    with Some show ?thesis
      using Cons.prems by (auto simp: structure_step_def continue_lesson_def)
  qed
  show ?case
    using Cons.IH [of "structure_step s p"] Cons.prems step by simp
qed

text \<open>
  Claim C9. When no page carries a valid lesson marker, that is, when the number
  \<^verbatim>\<open>extract_lesson_number\<close> detects on a page (if any) is 0 or above 15,
  \<^verbatim>\<open>structure_into_chapters\<close> returns the empty map. The function is total: it returns
  this zero-lesson result for every such input.
\<close>

theorem segmenter_no_marker_empty:
  assumes "\<forall>p\<in>set pages. \<forall>n. extract_lesson_number p = Some n \<longrightarrow> n = 0 \<or> 15 < n"
  shows "structure_into_chapters pages = Map.empty"
proof -
  have "chapters (structure_loop seg_init pages) = Map.empty
      \<and> current_lesson (structure_loop seg_init pages) = 0"
    using assms by (rule structure_loop_no_marker) (simp_all add: seg_init_def)
  then show ?thesis
    by (simp add: structure_into_chapters_def save_lesson_def)
qed

lemma no_marker_page_a: "extract_lesson_number (ascii ''Contents of the book'') = None"
  by (simp add: seg_eval re_eval str_eval)

lemma no_marker_page_b: "extract_lesson_number (ascii ''page 39-2, lesson 00-1'') = Some 39"
  by (simp add: seg_eval re_eval str_eval)

theorem segmenter_no_marker_empty_witness:
  "structure_into_chapters [ascii ''Contents of the book'', ascii ''page 39-2, lesson 00-1'']
     = Map.empty"
  using segmenter_no_marker_empty
    [of "[ascii ''Contents of the book'', ascii ''page 39-2, lesson 00-1'']"]
  by (simp add: no_marker_page_a no_marker_page_b)

subsection \<open>The text of a lesson\<close>

lemma structure_step_marker:
  "structure_step s p =
     (case lesson_marker p of
        None \<Rightarrow> continue_lesson s p
      | Some n \<Rightarrow> if n \<noteq> current_lesson s then start_lesson s n p else continue_lesson s p)"
  by (simp add: structure_step_def lesson_marker_def split: option.split)

lemma lesson_marker_range: "lesson_marker p = Some L \<Longrightarrow> 0 < L \<and> L \<le> 15"
  by (auto simp: lesson_marker_def split: option.splits if_splits)

lemma structure_loop_append:
  "structure_loop s (xs @ ys) = structure_loop (structure_loop s xs) ys"
  by (induction xs arbitrary: s) simp_all

lemma structure_loop_snoc:
  "structure_loop s (xs @ [x]) = structure_step (structure_loop s xs) x"
  by (simp add: structure_loop_append)

lemma structure_loop_continue:
  assumes "\<forall>q\<in>set run. lesson_marker q = None \<or> lesson_marker q = Some (current_lesson s)"
  shows "structure_loop s run =
           s\<lparr>current_content := current_content s @ filter (\<lambda>t. t \<noteq> []) (map py_strip run)\<rparr>"
  using assms
proof (induction run arbitrary: s)
  case Nil
  then show ?case by simp
next
  case (Cons q run)
  have step: "structure_step s q = continue_lesson s q"
    using Cons.prems by (auto simp: structure_step_marker)
  have cur: "current_lesson (continue_lesson s q) = current_lesson s"
    by (simp add: continue_lesson_def)
  show ?case
    using Cons.IH [of "continue_lesson s q"] Cons.prems
    by (simp add: step cur) (simp add: continue_lesson_def)
qed

lemma save_lesson_other:
  "current_lesson s \<noteq> L \<Longrightarrow> save_lesson s L = chapters s L"
  by (simp add: save_lesson_def)

lemma save_lesson_current:
  "0 < current_lesson s \<Longrightarrow> current_content s \<noteq> [] \<Longrightarrow>
   save_lesson s (current_lesson s) = Some (py_join unit_separator (current_content s))"
  by (simp add: save_lesson_def)

lemma structure_loop_other:
  assumes "current_lesson s \<noteq> L" and "\<forall>q\<in>set post. lesson_marker q \<noteq> Some L"
  shows "chapters (structure_loop s post) L = chapters s L
       \<and> current_lesson (structure_loop s post) \<noteq> L"
  using assms
proof (induction post arbitrary: s)
  case Nil
  then show ?case by simp
next
  case (Cons q post)
  have "chapters (structure_step s q) L = chapters s L \<and> current_lesson (structure_step s q) \<noteq> L"
    using Cons.prems
    by (auto simp: structure_step_marker start_lesson_def continue_lesson_def save_lesson_other
             split: option.split)
  then show ?case
    using Cons.IH [of "structure_step s q"] Cons.prems by simp
qed

lemma segmenter_run_forward:
  assumes pages: "pages = pre @ p # run @ post"
    and run: "run_of L pre p run"
    and post: "closed_by L post"
  shows "structure_into_chapters pages L = Some (run_text p run)"
proof -
  let ?s0 = "structure_loop seg_init pre"
  let ?s1 = "start_lesson ?s0 L p"
  let ?s2 = "?s1\<lparr>current_content := py_strip p # filter (\<lambda>t. t \<noteq> []) (map py_strip run)\<rparr>"
  from run have mark: "lesson_marker p = Some L" and pre: "current_lesson ?s0 \<noteq> L"
    and cont: "\<forall>q\<in>set run. lesson_marker q = None \<or> lesson_marker q = Some L"
    by (simp_all add: run_of_def)
  from mark have pos: "0 < L" by (simp add: lesson_marker_range)
  have s1: "structure_step ?s0 p = ?s1"
    using mark pre by (simp add: structure_step_marker)
  have "structure_loop ?s1 run = ?s1\<lparr>current_content := current_content ?s1 @ filter (\<lambda>t. t \<noteq> []) (map py_strip run)\<rparr>"
    by (rule structure_loop_continue) (use cont in \<open>simp add: start_lesson_def\<close>)
  then have s2: "structure_loop ?s1 run = ?s2"
    by (simp add: start_lesson_def)
  have loop: "structure_loop seg_init pages = structure_loop ?s2 post"
    by (simp add: pages structure_loop_append s1 s2)
  have saved: "save_lesson ?s2 L = Some (run_text p run)"
    using pos save_lesson_current [of ?s2] by (simp add: start_lesson_def run_text_def)
  show ?thesis
  proof (cases post)
    case Nil
    then show ?thesis
      using saved by (simp add: structure_into_chapters_def loop)
  next
    case (Cons q post')
    with post obtain L' where q: "lesson_marker q = Some L'" and ne: "L' \<noteq> L"
      and rest: "\<forall>r\<in>set post'. lesson_marker r \<noteq> Some L"
      by (auto simp: closed_by_def)
    let ?s3 = "start_lesson ?s2 L' q"
    have s3: "structure_step ?s2 q = ?s3"
      using q ne by (simp add: structure_step_marker start_lesson_def)
    have cur3: "current_lesson ?s3 \<noteq> L"
      using ne by (simp add: start_lesson_def)
    have ch3: "chapters ?s3 L = Some (run_text p run)"
      using saved by (simp add: start_lesson_def)
    from structure_loop_other [OF cur3 rest]
    have "chapters (structure_loop ?s3 post') L = Some (run_text p run)"
      and "current_lesson (structure_loop ?s3 post') \<noteq> L"
      by (simp_all add: ch3)
    then show ?thesis
      by (simp add: structure_into_chapters_def loop Cons s3 save_lesson_other)
  qed
qed

lemma closed_by_snoc:
  "closed_by L post \<Longrightarrow> post \<noteq> [] \<Longrightarrow> lesson_marker x \<noteq> Some L \<Longrightarrow> closed_by L (post @ [x])"
  by (auto simp: closed_by_def)

lemma closed_run_snoc:
  assumes "closed_run ps L body" and "lesson_marker x \<noteq> Some L"
  shows "closed_run (ps @ [x]) L body"
proof -
  from assms(1) obtain pre p run post where d: "ps = pre @ p # run @ post"
    and r: "run_of L pre p run" and c: "closed_by L post" and ne: "post \<noteq> []"
    and t: "body = run_text p run"
    by (auto simp: closed_run_def)
  have "ps @ [x] = pre @ p # run @ (post @ [x])"
    by (simp add: d)
  moreover have "closed_by L (post @ [x])"
    using c ne assms(2) by (rule closed_by_snoc)
  ultimately show ?thesis
    unfolding closed_run_def using r t by blast
qed

lemma open_run_close:
  assumes "open_run ps L content" and "lesson_marker x = Some n" and "n \<noteq> L"
  shows "closed_run (ps @ [x]) L (py_join unit_separator content)"
proof -
  from assms(1) obtain pre p run where d: "ps = pre @ p # run"
    and r: "run_of L pre p run"
    and t: "content = py_strip p # filter (\<lambda>t. t \<noteq> []) (map py_strip run)"
    by (auto simp: open_run_def)
  have "ps @ [x] = pre @ p # run @ [x]"
    by (simp add: d)
  moreover have "closed_by L [x]"
    using assms(2,3) by (simp add: closed_by_def)
  moreover have "py_join unit_separator content = run_text p run"
    by (simp add: t run_text_def)
  ultimately show ?thesis
    unfolding closed_run_def using r by blast
qed

lemma open_run_extend:
  assumes "open_run ps L content"
    and "lesson_marker x = None \<or> lesson_marker x = Some L"
  shows "open_run (ps @ [x]) L
           (content @ (if py_strip x \<noteq> [] then [py_strip x] else []))"
proof -
  from assms(1) obtain pre p run where d: "ps = pre @ p # run"
    and r: "run_of L pre p run"
    and t: "content = py_strip p # filter (\<lambda>t. t \<noteq> []) (map py_strip run)"
    by (auto simp: open_run_def)
  have "ps @ [x] = pre @ p # (run @ [x])"
    by (simp add: d)
  moreover have "run_of L pre p (run @ [x])"
    using r assms(2) by (auto simp: run_of_def)
  moreover have "content @ (if py_strip x \<noteq> [] then [py_strip x] else [])
      = py_strip p # filter (\<lambda>t. t \<noteq> []) (map py_strip (run @ [x]))"
    by (simp add: t)
  ultimately show ?thesis
    unfolding open_run_def by blast
qed

lemma open_run_start:
  assumes "lesson_marker x = Some n" and "current_lesson (structure_loop seg_init ps) \<noteq> n"
  shows "open_run (ps @ [x]) n [py_strip x]"
proof -
  have "run_of n ps x []"
    using assms by (simp add: run_of_def)
  then show ?thesis
    unfolding open_run_def by fastforce
qed

lemma chapters_zero:
  "chapters (structure_loop seg_init pages) 0 = None"
proof -
  have "dom (chapters (structure_loop seg_init pages)) \<subseteq> {1..15}"
    using structure_loop_range [of seg_init pages] by (simp add: seg_init_def)
  then show ?thesis by (auto simp: dom_def)
qed

lemma structure_loop_runs:
  "(\<forall>L body. chapters (structure_loop seg_init ps) L = Some body
        \<longrightarrow> current_lesson (structure_loop seg_init ps) \<noteq> L \<longrightarrow> closed_run ps L body)
   \<and> (0 < current_lesson (structure_loop seg_init ps)
        \<longrightarrow> open_run ps (current_lesson (structure_loop seg_init ps))
              (current_content (structure_loop seg_init ps)))"
proof (induction ps rule: rev_induct)
  case Nil
  show ?case by (simp add: seg_init_def)
next
  case (snoc x ps)
  let ?s = "structure_loop seg_init ps"
  from snoc have closed: "\<And>L body. chapters ?s L = Some body \<Longrightarrow> current_lesson ?s \<noteq> L \<Longrightarrow> closed_run ps L body"
    and opened: "0 < current_lesson ?s \<Longrightarrow> open_run ps (current_lesson ?s) (current_content ?s)"
    by blast+
  have zero: "chapters ?s 0 = None" by (rule chapters_zero)
  have content: "0 < current_lesson ?s \<Longrightarrow> current_content ?s \<noteq> []"
    using opened by (auto simp: open_run_def)
  show ?case
  proof (cases "\<exists>n. lesson_marker x = Some n \<and> n \<noteq> current_lesson ?s")
    case True
    then obtain n where n: "lesson_marker x = Some n" and ne: "n \<noteq> current_lesson ?s"
      by blast
    have step: "structure_loop seg_init (ps @ [x]) = start_lesson ?s n x"
      using n ne by (simp add: structure_loop_snoc structure_step_marker)
    have op: "open_run (ps @ [x]) n [py_strip x]"
      using n ne by (intro open_run_start) auto
    have cl: "closed_run (ps @ [x]) L body" if sv: "save_lesson ?s L = Some body" and l: "n \<noteq> L" for L body
    proof (cases "L = current_lesson ?s")
      case True
      with zero sv have pos: "0 < current_lesson ?s"
        by (cases "current_lesson ?s = 0") (simp_all add: save_lesson_def)
      with sv True content have "body = py_join unit_separator (current_content ?s)"
        by (simp add: save_lesson_def)
      with open_run_close [OF opened [OF pos] n] l True show ?thesis
        by simp
    next
      case False
      with sv have "chapters ?s L = Some body"
        by (simp add: save_lesson_def split: if_splits)
      from closed [OF this] False have "closed_run ps L body" by simp
      then show ?thesis
        using n l by (intro closed_run_snoc) auto
    qed
    show ?thesis
      using op cl by (auto simp: step start_lesson_def)
  next
    case False
    then have mk: "lesson_marker x = None \<or> lesson_marker x = Some (current_lesson ?s)"
      by (cases "lesson_marker x") auto
    then have step: "structure_loop seg_init (ps @ [x]) = continue_lesson ?s x"
      by (auto simp: structure_loop_snoc structure_step_marker)
    have op: "open_run (ps @ [x]) (current_lesson ?s) (current_content (continue_lesson ?s x))"
      if "0 < current_lesson ?s"
      using open_run_extend [OF opened [OF that] mk]
      by (cases "py_strip x = []") (simp_all add: continue_lesson_def)
    have cl: "closed_run (ps @ [x]) L body"
      if "chapters ?s L = Some body" and "current_lesson ?s \<noteq> L" for L body
      using closed [OF that] mk that(2) by (intro closed_run_snoc) auto
    have same: "chapters (continue_lesson ?s x) = chapters ?s"
      "current_lesson (continue_lesson ?s x) = current_lesson ?s"
      by (simp_all add: continue_lesson_def)
    show ?thesis
      using op cl by (auto simp: step same)
  qed
qed

lemma segmenter_run_backward:
  assumes "structure_into_chapters pages L = Some body"
  shows "\<exists>pre p run post. pages = pre @ p # run @ post \<and> run_of L pre p run
           \<and> closed_by L post \<and> body = run_text p run"
proof -
  let ?s = "structure_loop seg_init pages"
  from structure_loop_runs [of pages]
  have closed: "\<And>L body. chapters ?s L = Some body \<Longrightarrow> current_lesson ?s \<noteq> L \<Longrightarrow> closed_run pages L body"
    and opened: "0 < current_lesson ?s \<Longrightarrow> open_run pages (current_lesson ?s) (current_content ?s)"
    by blast+
  have zero: "chapters ?s 0 = None" by (rule chapters_zero)
  from assms have sv: "save_lesson ?s L = Some body"
    by (simp add: structure_into_chapters_def)
  show ?thesis
  proof (cases "L = current_lesson ?s")
    case True
    with zero sv have pos: "0 < current_lesson ?s"
      by (cases "current_lesson ?s = 0") (simp_all add: save_lesson_def)
    from opened [OF pos] obtain pre p run where d: "pages = pre @ p # run"
      and r: "run_of (current_lesson ?s) pre p run"
      and t: "current_content ?s = py_strip p # filter (\<lambda>t. t \<noteq> []) (map py_strip run)"
      by (auto simp: open_run_def)
    from sv True pos t have "body = run_text p run"
      by (simp add: save_lesson_def run_text_def)
    moreover have "pages = pre @ p # run @ []" by (simp add: d)
    moreover have "closed_by L []" by (simp add: closed_by_def)
    ultimately show ?thesis
      using r True by blast
  next
    case False
    with sv have "chapters ?s L = Some body"
      by (simp add: save_lesson_def split: if_splits)
    from closed [OF this] False show ?thesis
      unfolding closed_run_def by blast
  qed
qed

text \<open>
  Claim C8, as the code has it. \<^verbatim>\<open>structure_into_chapters\<close> maps lesson \<open>L\<close> to a text
  exactly when the pages split into \<open>pre\<close>, a page \<open>p\<close> that starts lesson \<open>L\<close> (it carries
  the marker of \<open>L\<close> while the loop is in another lesson), the pages \<open>run\<close> that continue it
  (no marker, or the marker of \<open>L\<close> again) and the pages \<open>post\<close> from the next marker on, none
  of which carries the marker of \<open>L\<close>; the text is then the join, with the separator of two
  newlines, of the stripped text of \<open>p\<close> and the stripped texts of \<open>run\<close> that are not empty,
  in the order of the pages.
\<close>

theorem segmenter_lesson_text:
  "structure_into_chapters pages L = Some body \<longleftrightarrow>
     (\<exists>pre p run post.
        pages = pre @ p # run @ post
      \<and> lesson_marker p = Some L
      \<and> current_lesson (structure_loop seg_init pre) \<noteq> L
      \<and> (\<forall>q\<in>set run. lesson_marker q = None \<or> lesson_marker q = Some L)
      \<and> (\<forall>q\<in>set post. lesson_marker q \<noteq> Some L)
      \<and> (post = [] \<or> (\<exists>L'. lesson_marker (hd post) = Some L'))
      \<and> body = py_join unit_separator (py_strip p # filter (\<lambda>t. t \<noteq> []) (map py_strip run)))"
  (is "?lhs \<longleftrightarrow> ?rhs")
proof
  assume ?lhs
  from segmenter_run_backward [OF this] show ?rhs
    unfolding run_of_def closed_by_def run_text_def by blast
next
  assume ?rhs
  then obtain pre p run post where "pages = pre @ p # run @ post" "run_of L pre p run"
    "closed_by L post" "body = run_text p run"
    unfolding run_of_def closed_by_def run_text_def by blast
  then show ?lhs
    using segmenter_run_forward by blast
qed

lemma marker_u1: "lesson_marker (ascii ''01-1 Lesson one'') = Some 1"
  by (simp add: lesson_marker_def seg_eval re_eval str_eval)

lemma marker_u2: "lesson_marker (ascii ''more of lesson one'') = None"
  by (simp add: lesson_marker_def seg_eval re_eval str_eval)

lemma marker_u3: "lesson_marker (ascii ''02-1 Lesson two'') = Some 2"
  by (simp add: lesson_marker_def seg_eval re_eval str_eval)

lemma strip_u1: "py_strip (ascii ''01-1 Lesson one'') = ascii ''01-1 Lesson one''"
  by (simp add: str_eval)

lemma strip_u2: "py_strip (ascii ''more of lesson one'') = ascii ''more of lesson one''"
  by (simp add: str_eval)

lemma strip_u3: "py_strip (ascii ''02-1 Lesson two'') = ascii ''02-1 Lesson two''"
  by (simp add: str_eval)

theorem segmenter_lesson_text_witness:
  "structure_into_chapters
     [ascii ''01-1 Lesson one'', ascii ''more of lesson one'', ascii ''02-1 Lesson two''] 1
     = Some (ascii ''01-1 Lesson one'' @ [10, 10] @ ascii ''more of lesson one'')
   \<and> structure_into_chapters
     [ascii ''01-1 Lesson one'', ascii ''more of lesson one'', ascii ''02-1 Lesson two''] 2
     = Some (ascii ''02-1 Lesson two'')"
proof -
  let ?u1 = "ascii ''01-1 Lesson one''" and ?u2 = "ascii ''more of lesson one''"
    and ?u3 = "ascii ''02-1 Lesson two''"
  have cur: "current_lesson (structure_step (structure_step seg_init ?u1) ?u2) = 1"
    using marker_u1 marker_u2
    by (simp add: structure_step_marker start_lesson_def continue_lesson_def seg_init_def)
  have one: "\<exists>pre p run post.
        [?u1, ?u2, ?u3] = pre @ p # run @ post
      \<and> lesson_marker p = Some 1
      \<and> current_lesson (structure_loop seg_init pre) \<noteq> 1
      \<and> (\<forall>q\<in>set run. lesson_marker q = None \<or> lesson_marker q = Some 1)
      \<and> (\<forall>q\<in>set post. lesson_marker q \<noteq> Some 1)
      \<and> (post = [] \<or> (\<exists>L'. lesson_marker (hd post) = Some L'))
      \<and> ?u1 @ [10, 10] @ ?u2 = py_join unit_separator (py_strip p # filter (\<lambda>t. t \<noteq> []) (map py_strip run))"
    apply (rule exI [of _ "[]"])
    apply (rule exI [of _ ?u1])
    apply (rule exI [of _ "[?u2]"])
    apply (rule exI [of _ "[?u3]"])
    apply (simp add: marker_u1 marker_u2 marker_u3 strip_u1 strip_u2 ascii_nonempty
        seg_init_def unit_separator_def)
    done
  have two: "\<exists>pre p run post.
        [?u1, ?u2, ?u3] = pre @ p # run @ post
      \<and> lesson_marker p = Some 2
      \<and> current_lesson (structure_loop seg_init pre) \<noteq> 2
      \<and> (\<forall>q\<in>set run. lesson_marker q = None \<or> lesson_marker q = Some 2)
      \<and> (\<forall>q\<in>set post. lesson_marker q \<noteq> Some 2)
      \<and> (post = [] \<or> (\<exists>L'. lesson_marker (hd post) = Some L'))
      \<and> ?u3 = py_join unit_separator (py_strip p # filter (\<lambda>t. t \<noteq> []) (map py_strip run))"
    apply (rule exI [of _ "[?u1, ?u2]"])
    apply (rule exI [of _ ?u3])
    apply (rule exI [of _ "[]"])
    apply (rule exI [of _ "[]"])
    apply (simp add: marker_u3 strip_u3 cur)
    done
  from one two show ?thesis
    using segmenter_lesson_text [of "[?u1, ?u2, ?u3]" 1 "?u1 @ [10, 10] @ ?u2"]
      segmenter_lesson_text [of "[?u1, ?u2, ?u3]" 2 ?u3]
    by blast
qed

text \<open>
  The text of a lesson is not the join of the page texts themselves: for the single page
  \<^verbatim>\<open>" 01-1 Hello"\<close>, which starts with a space, the text of lesson 1 is the join of no
  selection of the pages.
\<close>

lemma padded_page: "structure_into_chapters [ascii '' 01-1 Hello''] 1 = Some (ascii ''01-1 Hello'')"
  by (simp add: seg_eval re_eval str_eval)

lemma join_of_copies:
  assumes "set units \<subseteq> {u}" and "u \<noteq> []"
  shows "py_join sep units = [] \<or> hd (py_join sep units) = hd u"
proof (cases units)
  case Nil
  then show ?thesis by simp
next
  case (Cons x xs)
  with assms have x: "x = u" by simp
  show ?thesis
  proof (cases xs)
    case Nil
    with Cons x show ?thesis by simp
  next
    case (Cons y ys)
    with \<open>units = x # xs\<close> x assms(2) show ?thesis by simp
  qed
qed

theorem segmenter_raw_join_counterexample:
  "\<not> (\<exists>units. set units \<subseteq> set [ascii '' 01-1 Hello'']
        \<and> structure_into_chapters [ascii '' 01-1 Hello''] 1 = Some (py_join unit_separator units))"
proof
  assume "\<exists>units. set units \<subseteq> set [ascii '' 01-1 Hello'']
        \<and> structure_into_chapters [ascii '' 01-1 Hello''] 1 = Some (py_join unit_separator units)"
  then obtain units where sub: "set units \<subseteq> {ascii '' 01-1 Hello''}"
    and res: "structure_into_chapters [ascii '' 01-1 Hello''] 1 = Some (py_join unit_separator units)"
    by auto
  from res padded_page have eq: "py_join unit_separator units = ascii ''01-1 Hello''"
    by simp
  from join_of_copies [OF sub, of unit_separator]
  have "py_join unit_separator units = [] \<or> hd (py_join unit_separator units) = 32"
    by (simp add: ascii_def)
  with eq show False
    by (simp add: ascii_def)
qed

subsection \<open>The two grouping loops\<close>

text \<open>
  Claim C10. The two grouping loops differ on a page whose first marker is \<^verbatim>\<open>00\<close>:
  \<^verbatim>\<open>structure_into_chapters\<close> appends the page to the lesson in progress, while the loop of
  \<^verbatim>\<open>extract_chapters_from_ocr\<close> closes that lesson and drops the page.
\<close>

theorem grouping_loops_differ:
  "structure_into_chapters [ascii ''03-1 a'', ascii ''00-1 b'']
     = [3 \<mapsto> ascii ''03-1 a'' @ [10, 10] @ ascii ''00-1 b'']
   \<and> extract_chapters_from_ocr [ascii ''03-1 a'', ascii ''00-1 b'']
     = [3 \<mapsto> ascii ''03-1 a'']"
  by (simp add: extract_chapters_from_ocr_def extract_step_def Let_def seg_eval re_eval str_eval)

text \<open>On pages whose detected number is not 0 the two loops agree.\<close>

lemma extract_step_agrees:
  "extract_lesson_number p \<noteq> Some 0 \<Longrightarrow> extract_step s p = structure_step s p"
  by (auto simp: extract_step_def structure_step_def extract_lesson_number_def Let_def
           split: option.splits)

lemma extract_loop_agrees:
  "\<forall>p\<in>set pages. extract_lesson_number p \<noteq> Some 0 \<Longrightarrow>
   extract_loop s pages = structure_loop s pages"
  by (induction pages arbitrary: s) (simp_all add: extract_step_agrees)

lemma grouping_loops_agree:
  "\<forall>p\<in>set pages. extract_lesson_number p \<noteq> Some 0 \<Longrightarrow>
   extract_chapters_from_ocr pages = structure_into_chapters pages"
  by (simp add: extract_chapters_from_ocr_def structure_into_chapters_def extract_loop_agrees)

section \<open>Properties of the record parser\<close>

lemma thanks_line_delimited:
  "delimited_form thanks_line
     = Some \<lparr>word = [35874, 35874], pinyin = ascii ''xi'' @ [232] @ ascii ''xie'',
             part_of_speech = ascii ''verb'', meaning = ascii ''to thank''\<rparr>"
  by (simp add: thanks_line_def parse_eval re_eval str_eval)

lemma normalize_pos_verb:
  "normalize_pos (ascii ''v.'') = ascii ''verb'' \<and> normalize_pos (ascii '' V. '') = ascii ''verb''"
  by (simp add: parse_eval str_eval)

text \<open>
  Claim C5. \<^verbatim>\<open>parse_vocab_line\<close> returns what the delimited form returns whenever that form
  yields an entry, whatever the two space-separated patterns would give; only when it
  yields none is \<^verbatim>\<open>pattern\<close> tried, and \<^verbatim>\<open>pattern2\<close> after it. The line
  \<^verbatim>\<open>3. U+8C22 U+8C22 | xi(e)xie | v. | to thank\<close> is parsed by the delimited form into that
  word, the pinyin, the part of speech \<^verbatim>\<open>verb\<close> and the meaning \<^verbatim>\<open>to thank\<close>;
  \<^verbatim>\<open>normalize_pos\<close> maps \<^verbatim>\<open>v.\<close> to \<^verbatim>\<open>verb\<close> through \<^verbatim>\<open>POS_MAPPING\<close>, in either case of the
  letter.
\<close>

theorem delimited_form_first:
  "(delimited_form line = Some e \<longrightarrow> parse_vocab_line line = Some e)
   \<and> (delimited_form line = None \<longrightarrow> tagged_form line = Some e
        \<longrightarrow> parse_vocab_line line = Some e)
   \<and> (delimited_form line = None \<longrightarrow> tagged_form line = None
        \<longrightarrow> parse_vocab_line line = untagged_form line)
   \<and> parse_vocab_line thanks_line
        = Some \<lparr>word = [35874, 35874], pinyin = ascii ''xi'' @ [232] @ ascii ''xie'',
                part_of_speech = ascii ''verb'', meaning = ascii ''to thank''\<rparr>
   \<and> normalize_pos (ascii ''v.'') = ascii ''verb''
   \<and> normalize_pos (ascii '' V. '') = ascii ''verb''"
  using thanks_line_delimited normalize_pos_verb
  by (simp add: parse_vocab_line_def)

text \<open>
  A line that both forms match, with different results: the delimited one is returned.
\<close>

lemma both_forms_delimited:
  "delimited_form both_forms_line
     = Some \<lparr>word = [20320] @ ascii '' n'' @ [464] @ ascii '' pron. you'', pinyin = ascii ''x'',
             part_of_speech = ascii ''other'', meaning = ascii ''y''\<rparr>"
  by (simp add: both_forms_line_def parse_eval re_eval str_eval)

lemma both_forms_tagged:
  "tagged_form both_forms_line
     = Some \<lparr>word = [20320], pinyin = ascii ''n'' @ [464],
             part_of_speech = ascii ''pronoun'', meaning = ascii ''you | x | y''\<rparr>"
  by (simp add: both_forms_line_def parse_eval re_eval str_eval)

theorem delimited_form_first_witness:
  "delimited_form both_forms_line
     = Some \<lparr>word = [20320] @ ascii '' n'' @ [464] @ ascii '' pron. you'', pinyin = ascii ''x'',
             part_of_speech = ascii ''other'', meaning = ascii ''y''\<rparr>
   \<and> tagged_form both_forms_line
     = Some \<lparr>word = [20320], pinyin = ascii ''n'' @ [464],
             part_of_speech = ascii ''pronoun'', meaning = ascii ''you | x | y''\<rparr>
   \<and> parse_vocab_line both_forms_line
     = Some \<lparr>word = [20320] @ ascii '' n'' @ [464] @ ascii '' pron. you'', pinyin = ascii ''x'',
             part_of_speech = ascii ''other'', meaning = ascii ''y''\<rparr>"
  using delimited_form_first [of both_forms_line
      "\<lparr>word = [20320] @ ascii '' n'' @ [464] @ ascii '' pron. you'', pinyin = ascii ''x'',
             part_of_speech = ascii ''other'', meaning = ascii ''y''\<rparr>"]
  by (simp add: both_forms_delimited both_forms_tagged)

section \<open>Properties of the de-duplication\<close>

lemma add_unique_fields:
  "all_vocab (add_unique i s e) = (if word e \<notin> seen_words s then all_vocab s @ [e] else all_vocab s)"
  "seen_words (add_unique i s e) = insert (word e) (seen_words s)"
  "skipped (add_unique i s e) = (if word e \<notin> seen_words s then skipped s else skipped s @ [(word e, i)])"
  by (auto simp: add_unique_def)

lemma collect_stream:
  fixes xs :: "('z entry_scheme) list" and ch :: "'z entry_scheme \<Rightarrow> nat"
  shows "seen_words (foldl (\<lambda>s e. add_unique (ch e) s e) \<lparr>all_vocab = [], seen_words = seed, skipped = []\<rparr> xs) = seed \<union> word ` set xs
       \<and> all_vocab (foldl (\<lambda>s e. add_unique (ch e) s e) \<lparr>all_vocab = [], seen_words = seed, skipped = []\<rparr> xs)
           = map (\<lambda>k. xs ! k) (filter (first_of_word seed xs) [0..<length xs])
       \<and> skipped (foldl (\<lambda>s e. add_unique (ch e) s e) \<lparr>all_vocab = [], seen_words = seed, skipped = []\<rparr> xs)
           = map (\<lambda>k. (word (xs ! k), ch (xs ! k)))
               (filter (\<lambda>k. \<not> first_of_word seed xs k) [0..<length xs])"
proof (induction xs rule: rev_induct)
  case Nil
  show ?case by simp
next
  case (snoc x xs)
  let ?s = "foldl (\<lambda>s e. add_unique (ch e) s e) \<lparr>all_vocab = [], seen_words = seed, skipped = []\<rparr> xs"
  have old: "\<And>k. k < length xs \<Longrightarrow> first_of_word seed (xs @ [x]) k = first_of_word seed xs k"
    by (simp add: first_of_word_def nth_append)
  have last: "first_of_word seed (xs @ [x]) (length xs) \<longleftrightarrow> word x \<notin> seen_words ?s"
    using snoc by (simp add: first_of_word_def)
  have f1: "filter (first_of_word seed (xs @ [x])) [0..<length xs] = filter (first_of_word seed xs) [0..<length xs]"
    by (rule filter_cong) (simp_all add: old)
  have f2: "filter (\<lambda>k. \<not> first_of_word seed (xs @ [x]) k) [0..<length xs]
          = filter (\<lambda>k. \<not> first_of_word seed xs k) [0..<length xs]"
    by (rule filter_cong) (simp_all add: old)
  have m1: "map (\<lambda>k. (xs @ [x]) ! k) (filter (first_of_word seed xs) [0..<length xs])
          = map (\<lambda>k. xs ! k) (filter (first_of_word seed xs) [0..<length xs])"
    by (rule map_cong) (simp_all add: nth_append)
  have m2: "map (\<lambda>k. (word ((xs @ [x]) ! k), ch ((xs @ [x]) ! k))) (filter (\<lambda>k. \<not> first_of_word seed xs k) [0..<length xs])
          = map (\<lambda>k. (word (xs ! k), ch (xs ! k))) (filter (\<lambda>k. \<not> first_of_word seed xs k) [0..<length xs])"
    by (rule map_cong) (simp_all add: nth_append)
  show ?case
    using snoc
    by (simp add: add_unique_fields f1 f2 m1 m2 last del: upt_Suc)
       (simp add: last f1 f2 m1 m2)
qed

lemma collected_distinct:
  fixes xs :: "('z entry_scheme) list" and ch :: "'z entry_scheme \<Rightarrow> nat"
  shows "set (all_vocab (foldl (\<lambda>s e. add_unique (ch e) s e) \<lparr>all_vocab = [], seen_words = seed, skipped = []\<rparr> xs)) \<subseteq> set xs
       \<and> distinct (map word (all_vocab (foldl (\<lambda>s e. add_unique (ch e) s e) \<lparr>all_vocab = [], seen_words = seed, skipped = []\<rparr> xs)))
       \<and> word ` set (all_vocab (foldl (\<lambda>s e. add_unique (ch e) s e) \<lparr>all_vocab = [], seen_words = seed, skipped = []\<rparr> xs)) \<inter> seed = {}"
proof (induction xs rule: rev_induct)
  case Nil
  show ?case by simp
next
  case (snoc x xs)
  let ?s = "foldl (\<lambda>s e. add_unique (ch e) s e) \<lparr>all_vocab = [], seen_words = seed, skipped = []\<rparr> xs"
  have seen: "seen_words ?s = seed \<union> word ` set xs"
    using collect_stream [of ch seed xs] by simp
  from snoc have sub: "set (all_vocab ?s) \<subseteq> set xs" and dist: "distinct (map word (all_vocab ?s))"
    and seed: "word ` set (all_vocab ?s) \<inter> seed = {}"
    by simp_all
  show ?case
  proof (cases "word x \<in> seen_words ?s")
    case True
    then show ?thesis
      using sub dist seed by (auto simp: add_unique_fields)
  next
    case False
    with seen have "word x \<notin> seed" and "word x \<notin> word ` set xs" by auto
    with sub have "word x \<notin> word ` set (all_vocab ?s)" by auto
    then show ?thesis
      using False sub dist seed \<open>word x \<notin> seed\<close> by (auto simp: add_unique_fields)
  qed
qed

lemma chapter_of_vocab:
  "e \<in> set (extract_vocab_from_chapter content i) \<Longrightarrow> chapter e = i"
  by (auto simp: extract_vocab_from_chapter_def vocab_of_line_def split: if_splits option.splits)

lemma chapter_of_stream: "e \<in> set (chapter_stream chapters_dir i) \<Longrightarrow> chapter e = i"
  by (auto simp: chapter_stream_def chapter_of_vocab split: option.splits)

lemma foldl_add_unique_chapter:
  fixes es :: "('z vocab_entry_scheme) list"
  assumes "\<forall>e\<in>set es. chapter e = i"
  shows "foldl (add_unique i) s es = foldl (\<lambda>s e. add_unique (chapter e) s e) s es"
  using assms by (induction es arbitrary: s) simp_all

lemma extract_chapter_step_stream:
  "extract_chapter_step chapters_dir s i
     = foldl (\<lambda>s e. add_unique (chapter e) s e) s (chapter_stream chapters_dir i)"
proof (cases "chapters_dir i")
  case None
  then show ?thesis by (simp add: extract_chapter_step_def chapter_stream_def)
next
  case (Some stored)
  have "\<forall>e\<in>set (extract_vocab_from_chapter (read_text stored) i). chapter e = i"
    by (simp add: chapter_of_vocab)
  from foldl_add_unique_chapter [OF this] Some show ?thesis
    by (simp add: extract_chapter_step_def chapter_stream_def)
qed

lemma extract_chapters_stream:
  "foldl (extract_chapter_step chapters_dir) s nums
     = foldl (\<lambda>s e. add_unique (chapter e) s e) s (concat (map (chapter_stream chapters_dir) nums))"
  by (induction nums arbitrary: s) (simp_all add: extract_chapter_step_stream)

lemma extract_all_run_stream:
  "extract_all_run chapters_dir
     = foldl (\<lambda>s e. add_unique (chapter e) s e)
         \<lparr>all_vocab = [], seen_words = {}, skipped = []\<rparr> (vocab_stream chapters_dir)"
  by (simp only: extract_all_run_def vocab_stream_def extract_chapters_stream)

lemma chapter_of_atoms:
  "a \<in> set (extract_atoms_with_claude llm num content existing) \<Longrightarrow> chapter a = num"
  by (auto simp: extract_atoms_with_claude_def split: if_splits option.splits)

lemma chapter_results_chapter:
  "chapter_results llm existing chs completed k = Some atoms \<Longrightarrow> \<forall>a\<in>set atoms. chapter a = k"
proof (induction completed arbitrary: atoms rule: rev_induct)
  case Nil
  then show ?case by (simp add: chapter_results_def)
next
  case (snoc num completed)
  then show ?case
    by (auto simp: chapter_results_def chapter_of_atoms split: option.splits if_splits)
qed

lemma combine_step_stream:
  assumes "\<And>k atoms. res k = Some atoms \<Longrightarrow> \<forall>a\<in>set atoms. chapter a = k"
  shows "foldl (combine_step res) s nums
     = foldl (\<lambda>s e. add_unique (chapter e) s e) s
         (concat (map (\<lambda>k. case res k of None \<Rightarrow> [] | Some atoms \<Rightarrow> atoms) nums))"
proof (induction nums arbitrary: s)
  case Nil
  show ?case by simp
next
  case (Cons k nums)
  have "combine_step res s k
      = foldl (\<lambda>s e. add_unique (chapter e) s e) s (case res k of None \<Rightarrow> [] | Some atoms \<Rightarrow> atoms)"
    using assms [of k] foldl_add_unique_chapter [of _ k s]
    by (cases "res k") (simp_all add: combine_step_def)
  then show ?case
    by (simp add: Cons.IH)
qed

lemma process_all_run_stream:
  "process_all_run llm existing files completed
     = foldl (\<lambda>s e. add_unique (chapter e) s e)
         \<lparr>all_vocab = [], seen_words = existing, skipped = []\<rparr>
         (atom_stream llm existing files completed)"
  unfolding process_all_run_def atom_stream_def
  by (rule combine_step_stream) (rule chapter_results_chapter)

text \<open>
  Claim C1. In the list that \<^verbatim>\<open>extract_all_chapters\<close> returns no two entries share a
  word: the list holds exactly the records of the stream (chapter by chapter, line by
  line) that are the first of their word, in that order and unchanged, and every other
  record is printed as a skipped duplicate with its word and chapter. The same holds for
  \<^verbatim>\<open>process_all_chapters\<close>, whose set \<^verbatim>\<open>seen_words\<close> starts from the existing vocabulary
  words: an atom whose word is among them is never accepted, whatever its other fields.
\<close>

theorem first_occurrence_wins:
  "distinct (map word (extract_all_chapters chapters_dir))
   \<and> extract_all_chapters chapters_dir
       = map (\<lambda>k. vocab_stream chapters_dir ! k)
           (filter (first_of_word {} (vocab_stream chapters_dir))
              [0..<length (vocab_stream chapters_dir)])
   \<and> skipped (extract_all_run chapters_dir)
       = map (\<lambda>k. (word (vocab_stream chapters_dir ! k), chapter (vocab_stream chapters_dir ! k)))
           (filter (\<lambda>k. \<not> first_of_word {} (vocab_stream chapters_dir) k)
              [0..<length (vocab_stream chapters_dir)])
   \<and> distinct (map word (process_all_chapters llm existing files completed))
   \<and> word ` set (process_all_chapters llm existing files completed) \<inter> existing = {}
   \<and> process_all_chapters llm existing files completed
       = map (\<lambda>k. atom_stream llm existing files completed ! k)
           (filter (first_of_word existing (atom_stream llm existing files completed))
              [0..<length (atom_stream llm existing files completed)])
   \<and> skipped (process_all_run llm existing files completed)
       = map (\<lambda>k. (word (atom_stream llm existing files completed ! k),
                    chapter (atom_stream llm existing files completed ! k)))
           (filter (\<lambda>k. \<not> first_of_word existing (atom_stream llm existing files completed) k)
              [0..<length (atom_stream llm existing files completed)])"
  using collect_stream [of "chapter" "{}" "vocab_stream chapters_dir"]
    collected_distinct [of "chapter" "{}" "vocab_stream chapters_dir"]
    collect_stream [of "chapter" existing "atom_stream llm existing files completed"]
    collected_distinct [of "chapter" existing "atom_stream llm existing files completed"]
  by (simp add: extract_all_chapters_def process_all_chapters_def extract_all_run_stream
      process_all_run_stream)

text \<open>
  Two instances of the first-occurrence rule: the second line with the word U+4F60 is
  skipped, and so is the proposed atom U+4E94, a word of the existing vocabulary.
\<close>

lemma repeated_vocab_stream:
  "vocab_stream
     repeated_dir
   = [\<lparr>word = [20320], pinyin = ascii ''n'' @ [464], part_of_speech = ascii ''pronoun'',
        meaning = ascii ''you'', chapter = 1, source = ascii ''hsk1''\<rparr>,
      \<lparr>word = [20320], pinyin = ascii ''n'' @ [237] @ ascii ''n'', part_of_speech = ascii ''pronoun'',
        meaning = ascii ''you (polite)'', chapter = 1, source = ascii ''hsk1''\<rparr>]"
  by (simp add: unsorted_dir_def repeated_dir_def chapter_numbers vocab_eval parse_eval re_eval str_eval)

lemma known_atom_stream:
  "atom_stream
     five_service existing five_files [Suc 0]
   = [\<lparr>word = [20116], pinyin = ascii ''w'' @ [468], part_of_speech = ascii ''numeral'',
        meaning = ascii ''the number 5'', chapter = 1, source = ascii ''hsk1'',
        tag = ascii ''atom''\<rparr>]"
  by (simp add: five_service_def five_files_def chapter_numbers atom_eval str_eval)

theorem first_occurrence_wins_witness:
  "extract_all_chapters repeated_dir
     = [\<lparr>word = [20320], pinyin = ascii ''n'' @ [464], part_of_speech = ascii ''pronoun'',
          meaning = ascii ''you'', chapter = 1, source = ascii ''hsk1''\<rparr>]
   \<and> skipped (extract_all_run repeated_dir) = [([20320], 1)]
   \<and> process_all_chapters five_service (load_existing_hsk_words (Some five_vocabulary))
        five_files [1] = []
   \<and> skipped (process_all_run five_service (load_existing_hsk_words (Some five_vocabulary))
        five_files [1]) = [([20116], 1)]"
  using first_occurrence_wins
    [of repeated_dir five_service "load_existing_hsk_words (Some five_vocabulary)" five_files "[1]"]
  by (simp add: repeated_vocab_stream known_atom_stream first_of_word_def
      load_existing_hsk_words_def five_vocabulary_def)

section \<open>Properties of the output order\<close>

lemma atoms_output_ordered:
  "chapter_word_ordered (atoms_output llm existing files completed)"
proof -
  let ?key = "\<lambda>x :: atom_entry. (chapter x, word x)"
  have "sorted (map ?key (atoms_output llm existing files completed))"
    by (simp add: atoms_output_def)
  then have "successively (\<lambda>a b. ?key a \<le> ?key b) (atoms_output llm existing files completed)"
    by (simp add: sorted_wrt_map successively_if_sorted_wrt)
  moreover have "?key a \<le> ?key b \<longleftrightarrow>
      chapter a < chapter b \<or> (chapter a = chapter b \<and> word a \<le> word b)" for a b
    by (auto simp: less_eq_prod_def)
  ultimately show ?thesis
    by (simp add: chapter_word_ordered_def)
qed

lemma collected_sorted:
  fixes xs :: "('z vocab_entry_scheme) list"
  shows "sorted (map chapter (all_vocab s @ xs)) \<Longrightarrow>
         sorted (map chapter (all_vocab (foldl (\<lambda>s e. add_unique (chapter e) s e) s xs)))"
proof (induction xs arbitrary: s)
  case Nil
  then show ?case by simp
next
  case (Cons x xs)
  have "sorted (map chapter (all_vocab (add_unique (chapter x) s x) @ xs))"
    using Cons.prems by (auto simp: add_unique_fields sorted_append)
  from Cons.IH [OF this] show ?case by simp
qed

lemma sorted_const: "\<forall>e\<in>set xs. f e = (c::nat) \<Longrightarrow> sorted (map f xs)"
  by (induction xs) auto

lemma chapter_streams_sorted:
  "sorted nums \<Longrightarrow> sorted (map chapter (concat (map (chapter_stream chapters_dir) nums)))"
proof (induction nums)
  case Nil
  show ?case by simp
next
  case (Cons i nums)
  have here: "sorted (map chapter (chapter_stream chapters_dir i))"
    by (rule sorted_const [of _ _ i]) (simp add: chapter_of_stream)
  have later: "chapter e \<le> chapter e'"
    if "e \<in> set (chapter_stream chapters_dir i)"
      and "e' \<in> set (chapter_stream chapters_dir j)" and "j \<in> set nums" for e e' j
    using that Cons.prems by (auto dest!: chapter_of_stream)
  from Cons have rest: "sorted (map chapter (concat (map (chapter_stream chapters_dir) nums)))"
    by simp
  show ?case
    using here rest later by (auto simp: sorted_append)
qed

lemma vocabulary_chapter_order:
  "successively (\<lambda>a b. chapter a \<le> chapter b) (extract_all_chapters chapters_dir)"
proof -
  have "sorted (map chapter (vocab_stream chapters_dir))"
    unfolding vocab_stream_def by (rule chapter_streams_sorted) simp
  then have "sorted (map chapter (extract_all_chapters chapters_dir))"
    unfolding extract_all_chapters_def extract_all_run_stream
    by (intro collected_sorted) simp
  then show ?thesis
    by (simp add: sorted_wrt_map successively_if_sorted_wrt)
qed

lemma extract_all_chapters_stream:
  "extract_all_chapters chapters_dir
     = map (\<lambda>k. vocab_stream chapters_dir ! k)
         (filter (first_of_word {} (vocab_stream chapters_dir))
            [0..<length (vocab_stream chapters_dir)])"
  using collect_stream [of "chapter" "{}" "vocab_stream chapters_dir"]
  by (simp add: extract_all_chapters_def extract_all_run_stream)

lemma collected_subseq:
  fixes xs :: "('z vocab_entry_scheme) list"
  shows "subseq (all_vocab (foldl (\<lambda>s e. add_unique (chapter e) s e) s xs)) (all_vocab s @ xs)"
proof (induction xs arbitrary: s)
  case Nil
  show ?case by simp
next
  case (Cons x xs)
  show ?case
  proof (cases "word x \<in> seen_words s")
    case True
    then have same: "all_vocab (add_unique (chapter x) s x) = all_vocab s"
      by (simp add: add_unique_def)
    have "subseq xs (x # xs)"
      by (rule list_emb_Cons) simp
    then have "subseq (all_vocab s @ xs) (all_vocab s @ x # xs)"
      by (intro list_emb_append_mono) simp_all
    with Cons.IH [of "add_unique (chapter x) s x"] same show ?thesis
      by (auto intro: subseq_order.order_trans)
  next
    case False
    then have "all_vocab (add_unique (chapter x) s x) = all_vocab s @ [x]"
      by (simp add: add_unique_def)
    with Cons.IH [of "add_unique (chapter x) s x"] show ?thesis
      by simp
  qed
qed

lemma vocabulary_subseq: "subseq (extract_all_chapters chapters_dir) (vocab_stream chapters_dir)"
  using collected_subseq [of "\<lparr>all_vocab = [], seen_words = {}, skipped = []\<rparr>" "vocab_stream chapters_dir"]
  by (simp add: extract_all_chapters_def extract_all_run_stream)

lemma other_chapters_filtered:
  "i \<notin> set nums \<Longrightarrow> filter (\<lambda>e. chapter e = i) (concat (map (chapter_stream chapters_dir) nums)) = []"
  by (induction nums) (auto simp: filter_empty_conv dest: chapter_of_stream)

lemma chapter_of_streams:
  "distinct nums \<Longrightarrow>
   filter (\<lambda>e. chapter e = i) (concat (map (chapter_stream chapters_dir) nums))
     = (if i \<in> set nums then chapter_stream chapters_dir i else [])"
proof (induction nums)
  case Nil
  show ?case by simp
next
  case (Cons j nums)
  have here: "filter (\<lambda>e. chapter e = i) (chapter_stream chapters_dir j)
      = (if j = i then chapter_stream chapters_dir i else [])"
    by (auto simp: filter_empty_conv filter_id_conv dest: chapter_of_stream)
  show ?case
    using Cons here other_chapters_filtered [of i nums chapters_dir] by auto
qed

lemma vocabulary_line_order:
  "subseq (filter (\<lambda>e. chapter e = i) (extract_all_chapters chapters_dir))
     (chapter_stream chapters_dir i)"
proof -
  have sub: "subseq (filter (\<lambda>e. chapter e = i) (extract_all_chapters chapters_dir))
      (filter (\<lambda>e. chapter e = i) (vocab_stream chapters_dir))"
    using vocabulary_subseq by (rule subseq_filter)
  have eq: "filter (\<lambda>e. chapter e = i) (vocab_stream chapters_dir)
      = (if i \<in> set [1..<16] then chapter_stream chapters_dir i else [])"
    unfolding vocab_stream_def by (rule chapter_of_streams) simp
  show ?thesis
  proof (cases "i \<in> set [1..<16]")
    case True
    with eq have "filter (\<lambda>e. chapter e = i) (vocab_stream chapters_dir)
        = chapter_stream chapters_dir i"
      by (simp only: if_True)
    with sub show ?thesis by simp
  next
    case False
    with eq have "filter (\<lambda>e. chapter e = i) (vocab_stream chapters_dir) = []"
      by (simp only: if_False)
    with sub have "subseq (filter (\<lambda>e. chapter e = i) (extract_all_chapters chapters_dir)) []"
      by simp
    then have "filter (\<lambda>e. chapter e = i) (extract_all_chapters chapters_dir) = []"
      by (rule list_emb_Nil2)
    then show ?thesis by simp
  qed
qed

text \<open>
  Claim C7, as the code has it. The list written to \<^verbatim>\<open>hsk1_atoms.json\<close> is ordered by
  chapter and then by word: \<^verbatim>\<open>main\<close> of \<^verbatim>\<open>extract_atoms.py\<close> sorts it. The list written to
  \<^verbatim>\<open>hsk1_vocabulary.json\<close> is what \<^verbatim>\<open>extract_all_chapters\<close> returns, which is never
  sorted. Its chapters do not decrease. Its records of chapter \<open>i\<close> keep the order of
  their lines: they are, in the same order, records of the list that
  \<^verbatim>\<open>extract_vocab_from_chapter\<close> builds line after line from the file of chapter \<open>i\<close>.
  The whole list is the stream of these chapter lists, chapter after chapter, without
  the records whose word an earlier record has.
\<close>

theorem output_order:
  "chapter_word_ordered (atoms_output llm existing files completed)
   \<and> successively (\<lambda>a b. chapter a \<le> chapter b) (extract_all_chapters chapters_dir)
   \<and> subseq (filter (\<lambda>e. chapter e = i) (extract_all_chapters chapters_dir))
        (chapter_stream chapters_dir i)
   \<and> extract_all_chapters chapters_dir
        = map (\<lambda>k. vocab_stream chapters_dir ! k)
            (filter (first_of_word {} (vocab_stream chapters_dir))
               [0..<length (vocab_stream chapters_dir)])"
proof (intro conjI)
  show "chapter_word_ordered (atoms_output llm existing files completed)"
    by (rule atoms_output_ordered)
  show "successively (\<lambda>a b. chapter a \<le> chapter b) (extract_all_chapters chapters_dir)"
    by (rule vocabulary_chapter_order)
  show "subseq (filter (\<lambda>e. chapter e = i) (extract_all_chapters chapters_dir))
      (chapter_stream chapters_dir i)"
    by (rule vocabulary_line_order)
  show "extract_all_chapters chapters_dir
      = map (\<lambda>k. vocab_stream chapters_dir ! k)
          (filter (first_of_word {} (vocab_stream chapters_dir))
             [0..<length (vocab_stream chapters_dir)])"
    by (rule extract_all_chapters_stream)
qed

lemma unsorted_vocab_stream:
  "vocab_stream
     unsorted_dir
   = [\<lparr>word = [22909], pinyin = ascii ''h'' @ [462] @ ascii ''o'', part_of_speech = ascii ''adjective'',
        meaning = ascii ''good'', chapter = 1, source = ascii ''hsk1''\<rparr>,
      \<lparr>word = [20320], pinyin = ascii ''n'' @ [464], part_of_speech = ascii ''pronoun'',
        meaning = ascii ''you'', chapter = 1, source = ascii ''hsk1''\<rparr>]"
  by (simp add: unsorted_dir_def repeated_dir_def chapter_numbers vocab_eval parse_eval re_eval str_eval)

text \<open>
  A chapter file that lists U+597D before U+4F60 yields the two records in that order,
  the order of the lines, which is not the order of the words.
\<close>

theorem output_order_witness:
  "extract_all_chapters unsorted_dir
     = [\<lparr>word = [22909], pinyin = ascii ''h'' @ [462] @ ascii ''o'', part_of_speech = ascii ''adjective'',
          meaning = ascii ''good'', chapter = 1, source = ascii ''hsk1''\<rparr>,
        \<lparr>word = [20320], pinyin = ascii ''n'' @ [464], part_of_speech = ascii ''pronoun'',
          meaning = ascii ''you'', chapter = 1, source = ascii ''hsk1''\<rparr>]
   \<and> ([20320] :: pystr) < [22909]"
proof -
  from output_order [of five_service "{}" five_files "[1]" unsorted_dir 1]
  have "extract_all_chapters unsorted_dir
      = map (\<lambda>k. vocab_stream unsorted_dir ! k)
          (filter (first_of_word {} (vocab_stream unsorted_dir))
             [0..<length (vocab_stream unsorted_dir)])"
    by blast
  then show ?thesis
    by (simp add: unsorted_vocab_stream first_of_word_def)
qed

text \<open>
  The vocabulary list is not ordered by word within a chapter: the two records of that
  chapter file are not in the order of the claim.
\<close>

theorem vocabulary_order_counterexample:
  "\<not> chapter_word_ordered (extract_all_chapters
     unsorted_dir)"
  by (simp add: extract_all_chapters_stream unsorted_vocab_stream first_of_word_def
      chapter_word_ordered_def)

section \<open>Properties of the correction run\<close>

lemma correct_chapter_num:
  "correct_chapter_with_claude service k content ctx = Inr (n, t) \<Longrightarrow> n = k \<and> k < 16"
  by (auto simp: correct_chapter_with_claude_def split: if_splits sum.splits)

lemma write_text_parts:
  "write_text disk files num content
     = (written disk num content, files(num := file_after disk (files num) num content))"
  by (simp add: write_text_def written_def file_after_def split: write_outcome.split)

lemma written_iff:
  "written disk num content \<longleftrightarrow> disk num content = Written \<and> utf8_encodable content"
  by (simp add: write_text_def written_def split: write_outcome.split)

lemma file_after_written:
  "written disk num content \<Longrightarrow> file_after disk before num content = Some content"
  by (simp add: written_iff) (simp add: write_text_def file_after_def)

lemma file_after_surrogate:
  "\<not> utf8_encodable content \<Longrightarrow> disk num content \<noteq> Open_failed
     \<Longrightarrow> file_after disk before num content = Some []"
  by (simp add: write_text_def file_after_def split: write_outcome.split)

lemma file_after_again:
  "file_after disk (file_after disk before num content) num content
     = file_after disk before num content"
  by (simp add: write_text_def file_after_def split: write_outcome.split)

lemma complete_future_fields:
  "results (complete_future service disk chs ctx s k)
     = (if corrected service chs ctx k \<noteq> None then (results s)(k := corrected service chs ctx k)
        else results s)"
  "output_dir (complete_future service disk chs ctx s k)
     = (case corrected service chs ctx k of
          None \<Rightarrow> output_dir s
        | Some t \<Rightarrow> (output_dir s)(k := file_after disk (output_dir s k) k t))"
  "invoked (complete_future service disk chs ctx s k)
     = invoked s @ (if chs k \<noteq> None \<and> k < 16 then [k] else [])"
  "failed (complete_future service disk chs ctx s k)
     = failed s @ (if chs k \<noteq> None
                      \<and> (corrected service chs ctx k = None \<or> write_failed service disk chs ctx k)
                   then [k] else [])"
  by (auto simp: complete_future_def corrected_def write_failed_def write_text_parts Let_def
           split: option.splits sum.splits dest: correct_chapter_num)

lemma process_parallel_run_fields:
  "results (process_parallel_run service disk chs ctx files completed)
     = (\<lambda>k. if k \<in> set completed then corrected service chs ctx k else None)
   \<and> output_dir (process_parallel_run service disk chs ctx files completed)
     = (\<lambda>k. if k \<in> set completed
             then (case corrected service chs ctx k of
                     None \<Rightarrow> files k
                   | Some t \<Rightarrow> file_after disk (files k) k t)
             else files k)
   \<and> invoked (process_parallel_run service disk chs ctx files completed)
     = filter (\<lambda>k. chs k \<noteq> None \<and> k < 16) completed
   \<and> failed (process_parallel_run service disk chs ctx files completed)
     = filter (\<lambda>k. chs k \<noteq> None
                    \<and> (corrected service chs ctx k = None \<or> write_failed service disk chs ctx k))
         completed"
proof (induction completed rule: rev_induct)
  case Nil
  show ?case by (simp add: process_parallel_run_def)
next
  case (snoc k completed)
  have step: "process_parallel_run service disk chs ctx files (completed @ [k])
      = complete_future service disk chs ctx (process_parallel_run service disk chs ctx files completed) k"
    by (simp add: process_parallel_run_def)
  show ?case
    unfolding step using snoc
    by (auto simp: complete_future_fields fun_eq_iff file_after_again split: option.splits)
qed

lemma corrected_undispatched: "chs k = None \<Longrightarrow> corrected service chs ctx k = None"
  by (simp add: corrected_def)

lemma write_failed_corrected:
  "write_failed service disk chs ctx k \<Longrightarrow> corrected service chs ctx k \<noteq> None"
  by (simp add: write_failed_def split: option.splits)

lemma write_failed_iff:
  "write_failed service disk chs ctx k \<longleftrightarrow>
     (\<exists>t. corrected service chs ctx k = Some t \<and> (disk k t \<noteq> Written \<or> \<not> utf8_encodable t))"
  by (auto simp: write_failed_def written_iff split: option.splits)

text \<open>
  Claim C2, as the code has it. When every dispatched lesson's future completes, the map
  that \<^verbatim>\<open>process_all_chapters_parallel\<close> returns holds the corrected text of exactly the
  lessons whose correction succeeded; a lesson whose correction failed has no entry and
  is printed as failed. A lesson whose corrected text could not be written to its file
  is printed as failed as well, although the map holds its text. Every dispatched lesson
  is in the map or printed as failed, the lessons that are both are those whose write
  failed, and what a lesson gets depends on the corrector's answer and on the write for
  that lesson only.
\<close>

theorem correction_outcomes:
  assumes "set completed = dom chs"
  shows "process_all_chapters_parallel service disk chs ctx files completed
           = corrected service chs ctx
       \<and> set (failed (process_parallel_run service disk chs ctx files completed))
           = {k \<in> dom chs. corrected service chs ctx k = None \<or> write_failed service disk chs ctx k}
       \<and> dom (process_all_chapters_parallel service disk chs ctx files completed)
           \<union> set (failed (process_parallel_run service disk chs ctx files completed)) = dom chs
       \<and> dom (process_all_chapters_parallel service disk chs ctx files completed)
           \<inter> set (failed (process_parallel_run service disk chs ctx files completed))
           = {k. write_failed service disk chs ctx k}
       \<and> (write_failed service disk chs ctx k \<longleftrightarrow>
            (\<exists>t. corrected service chs ctx k = Some t
                 \<and> (disk k t \<noteq> Written \<or> \<not> utf8_encodable t)))"
proof -
  have res: "process_all_chapters_parallel service disk chs ctx files completed
      = corrected service chs ctx"
    using process_parallel_run_fields [of service disk chs ctx files completed] assms
    by (auto simp: process_all_chapters_parallel_def fun_eq_iff corrected_undispatched
             intro: corrected_undispatched)
  have fl: "set (failed (process_parallel_run service disk chs ctx files completed))
      = {k \<in> dom chs. corrected service chs ctx k = None \<or> write_failed service disk chs ctx k}"
    using process_parallel_run_fields [of service disk chs ctx files completed] assms
    by auto
  have sub: "dom (corrected service chs ctx) \<subseteq> dom chs"
    by (auto simp: corrected_def split: option.splits)
  have un: "dom (corrected service chs ctx)
      \<union> {k \<in> dom chs. corrected service chs ctx k = None \<or> write_failed service disk chs ctx k}
      = dom chs"
    using sub by auto
  have both: "dom (corrected service chs ctx)
      \<inter> {k \<in> dom chs. corrected service chs ctx k = None \<or> write_failed service disk chs ctx k}
      = {k. write_failed service disk chs ctx k}"
  proof -
    have "k \<in> dom (corrected service chs ctx) \<and> k \<in> dom chs"
      if "write_failed service disk chs ctx k" for k
      using that sub write_failed_corrected [of service disk chs ctx k] by (auto simp: domIff)
    then show ?thesis
      by (auto simp: domIff)
  qed
  show ?thesis
    unfolding res fl using un both write_failed_iff [of service disk chs ctx k] by simp
qed

lemma three_lessons_dom: "dom three_lessons = {1, 2, 3}"
  by (auto simp: three_lessons_def)

lemma surrogate_run_results:
  "process_all_chapters_parallel surrogate_service sound_disk three_lessons [] Map.empty [3, 1, 2]
     = [3 \<mapsto> ascii ''Corrected: 03-1 raw three'', 1 \<mapsto> ascii ''ok '' @ [55296]]"
  by (simp add: run_eval three_lessons_def surrogate_service_def ascii_def)

lemma surrogate_corrected:
  "corrected surrogate_service three_lessons [] 1 = Some (ascii ''ok '' @ [55296])"
  "corrected surrogate_service three_lessons [] 2 = None"
  "corrected surrogate_service three_lessons [] 3 = Some (ascii ''Corrected: 03-1 raw three'')"
  by (simp_all add: run_eval three_lessons_def surrogate_service_def ascii_def)

lemma surrogate_writes:
  "write_failed surrogate_service sound_disk three_lessons [] (Suc 0)"
  "\<not> write_failed surrogate_service sound_disk three_lessons [] 2"
  "\<not> write_failed surrogate_service sound_disk three_lessons [] 3"
  by (simp_all add: run_eval three_lessons_def surrogate_service_def ascii_def)

lemma surrogate_write_failed:
  "write_failed surrogate_service sound_disk three_lessons [] k \<longleftrightarrow> k = 1"
proof (cases "k \<in> dom three_lessons")
  case True
  then have "k = Suc 0 \<or> k = 2 \<or> k = 3"
    by (simp add: three_lessons_dom)
  then show ?thesis
    using surrogate_writes by auto
next
  case False
  then have "corrected surrogate_service three_lessons [] k = None"
    by (simp add: corrected_undispatched domIff)
  moreover from False have "k \<noteq> 1"
    by (auto simp: three_lessons_dom)
  ultimately show ?thesis
    by (simp add: write_failed_def)
qed

theorem correction_outcomes_witness:
  "set [3, 1, 2] = dom three_lessons
   \<and> corrected surrogate_service three_lessons []
        = [3 \<mapsto> ascii ''Corrected: 03-1 raw three'', 1 \<mapsto> ascii ''ok '' @ [55296]]
   \<and> set (failed (process_parallel_run surrogate_service sound_disk three_lessons [] Map.empty [3, 1, 2]))
        = {1, 2}
   \<and> dom (process_all_chapters_parallel surrogate_service sound_disk three_lessons [] Map.empty [3, 1, 2])
        \<inter> set (failed (process_parallel_run surrogate_service sound_disk three_lessons [] Map.empty [3, 1, 2]))
        = {1}"
proof -
  have dom: "set [3, 1, 2] = dom three_lessons"
    by (auto simp: three_lessons_dom)
  have fl: "{k \<in> dom three_lessons. corrected surrogate_service three_lessons [] k = None
              \<or> write_failed surrogate_service sound_disk three_lessons [] k} = {1, 2}"
    by (auto simp: three_lessons_dom surrogate_write_failed surrogate_corrected)
  have wf: "{k. write_failed surrogate_service sound_disk three_lessons [] k} = {1}"
    by (auto simp: surrogate_write_failed)
  note run = correction_outcomes [OF dom, of surrogate_service sound_disk "[]" Map.empty]
  from run surrogate_run_results
  have a: "corrected surrogate_service three_lessons []
        = [3 \<mapsto> ascii ''Corrected: 03-1 raw three'', 1 \<mapsto> ascii ''ok '' @ [55296]]"
    by metis
  from run fl
  have b: "set (failed (process_parallel_run surrogate_service sound_disk three_lessons [] Map.empty [3, 1, 2]))
        = {1, 2}"
    by metis
  from run wf
  have c: "dom (process_all_chapters_parallel surrogate_service sound_disk three_lessons [] Map.empty [3, 1, 2])
        \<inter> set (failed (process_parallel_run surrogate_service sound_disk three_lessons [] Map.empty [3, 1, 2]))
        = {1}"
    by metis
  from dom a b c show ?thesis
    by blast
qed

theorem missing_entry_counterexample:
  "three_lessons 2 \<noteq> None
   \<and> process_all_chapters_parallel failing_service sound_disk three_lessons [] Map.empty [1, 2, 3] 2 = None
   \<and> dom (process_all_chapters_parallel failing_service sound_disk three_lessons [] Map.empty [1, 2, 3])
       \<noteq> dom three_lessons"
proof -
  have a: "three_lessons 2 \<noteq> None"
    by (simp add: three_lessons_def)
  have b: "process_all_chapters_parallel failing_service sound_disk three_lessons [] Map.empty [1, 2, 3] 2 = None"
    by (simp add: run_eval three_lessons_def failing_service_def)
  from a have "2 \<in> dom three_lessons"
    by (simp add: domIff)
  moreover from b
  have "2 \<notin> dom (process_all_chapters_parallel failing_service sound_disk three_lessons [] Map.empty [1, 2, 3])"
    by (simp add: domIff)
  ultimately show ?thesis
    using a b by blast
qed

text \<open>
  Claim C3, as the code has it. \<^verbatim>\<open>process_all_chapters_parallel\<close> submits a task for every
  lesson of \<^verbatim>\<open>chapters\<close> and never looks at the output directory first: the corrector is
  called once for each dispatched lesson, whatever files exist. The file of a lesson
  whose correction succeeds is what the write of the corrected text leaves: that text
  when the write goes through, and an empty file when the text cannot be encoded. The
  file of a lesson whose correction fails stays as it was.
\<close>

theorem rerun_invokes_corrector:
  assumes "distinct completed" and "set completed = dom chs" and "dom chs \<subseteq> {1..15}"
  shows "set (invoked (process_parallel_run service disk chs ctx files completed)) = dom chs
       \<and> length (invoked (process_parallel_run service disk chs ctx files completed)) = card (dom chs)
       \<and> invoked (process_parallel_run service disk chs ctx files completed)
           = invoked (process_parallel_run service disk chs ctx files' completed)
       \<and> (\<forall>k t. corrected service chs ctx k = Some t
             \<longrightarrow> output_dir (process_parallel_run service disk chs ctx files completed) k
                   = file_after disk (files k) k t)
       \<and> (\<forall>k t. corrected service chs ctx k = Some t \<and> written disk k t
             \<longrightarrow> output_dir (process_parallel_run service disk chs ctx files completed) k = Some t)
       \<and> (\<forall>k t. corrected service chs ctx k = Some t \<and> \<not> utf8_encodable t
                  \<and> disk k t \<noteq> Open_failed
             \<longrightarrow> output_dir (process_parallel_run service disk chs ctx files completed) k = Some [])
       \<and> (\<forall>k. corrected service chs ctx k = None
             \<longrightarrow> output_dir (process_parallel_run service disk chs ctx files completed) k = files k)"
proof -
  have all: "filter (\<lambda>k. chs k \<noteq> None \<and> k < 16) completed = completed"
    using assms(2,3) by (auto simp: filter_id_conv)
  have inv: "invoked (process_parallel_run service disk chs ctx fs completed) = completed" for fs
    using process_parallel_run_fields [of service disk chs ctx fs completed] all by simp
  have len: "length completed = card (dom chs)"
    using assms(1,2) distinct_card [of completed] by simp
  have out: "output_dir (process_parallel_run service disk chs ctx files completed) k
      = file_after disk (files k) k t"
    if "corrected service chs ctx k = Some t" for k t
  proof -
    from that have "chs k \<noteq> None"
      by (auto simp: corrected_def split: option.splits)
    with assms(2) have "k \<in> set completed" by auto
    with that show ?thesis
      using process_parallel_run_fields [of service disk chs ctx files completed] by simp
  qed
  have kept: "output_dir (process_parallel_run service disk chs ctx files completed) k = files k"
    if "corrected service chs ctx k = None" for k
    using that process_parallel_run_fields [of service disk chs ctx files completed] by simp
  show ?thesis
    using inv len out kept assms(2)
    by (simp add: file_after_written file_after_surrogate)
qed

lemma persisted_all: "dom three_lessons \<subseteq> dom persisted_dir"
  by (auto simp: three_lessons_def persisted_dir_def)

theorem rerun_counterexample:
  "dom three_lessons \<subseteq> dom persisted_dir
   \<and> invoked (process_parallel_run echo_service sound_disk three_lessons [] persisted_dir [1, 2, 3])
       = [1, 2, 3]"
  using persisted_all process_parallel_run_fields [of echo_service sound_disk three_lessons "[]" persisted_dir "[1, 2, 3]"]
  by (simp add: three_lessons_def)

lemma surrogate_text: "\<not> utf8_encodable (ascii ''ok '' @ [55296])"
  by (simp add: utf8_encodable_def ascii_def)

lemma corrected_three_written:
  "written sound_disk 3 (ascii ''Corrected: 03-1 raw three'')"
  by (simp add: written_def write_text_def utf8_encodable_def sound_disk_def ascii_def)

theorem rerun_invokes_corrector_witness:
  "distinct [1, 2, 3 :: nat] \<and> set [1, 2, 3] = dom three_lessons \<and> dom three_lessons \<subseteq> {1..15}
   \<and> set (invoked (process_parallel_run surrogate_service sound_disk three_lessons [] persisted_dir [1, 2, 3]))
       = dom three_lessons
   \<and> length (invoked (process_parallel_run surrogate_service sound_disk three_lessons [] persisted_dir [1, 2, 3]))
       = 3
   \<and> output_dir (process_parallel_run surrogate_service sound_disk three_lessons [] persisted_dir [1, 2, 3]) 1
       = Some []
   \<and> output_dir (process_parallel_run surrogate_service sound_disk three_lessons [] persisted_dir [1, 2, 3]) 2
       = Some (ascii ''Lesson two'')
   \<and> output_dir (process_parallel_run surrogate_service sound_disk three_lessons [] persisted_dir [1, 2, 3]) 3
       = Some (ascii ''Corrected: 03-1 raw three'')"
proof -
  have d: "distinct [1, 2, 3 :: nat]" by simp
  have s: "set [1, 2, 3] = dom three_lessons" by (auto simp: three_lessons_dom)
  have r: "dom three_lessons \<subseteq> {1..15}" by (auto simp: three_lessons_dom)
  have n: "card (dom three_lessons) = 3" by (simp add: three_lessons_dom)
  have open1: "sound_disk 1 (ascii ''ok '' @ [55296]) \<noteq> Open_failed"
    by (simp add: sound_disk_def)
  have old2: "persisted_dir 2 = Some (ascii ''Lesson two'')"
    by (simp add: persisted_dir_def)
  note run = rerun_invokes_corrector [OF d s r, of surrogate_service sound_disk "[]" persisted_dir persisted_dir]
  from run
  have i: "set (invoked (process_parallel_run surrogate_service sound_disk three_lessons [] persisted_dir [1, 2, 3]))
      = dom three_lessons"
    by blast
  from run n
  have l: "length (invoked (process_parallel_run surrogate_service sound_disk three_lessons [] persisted_dir [1, 2, 3])) = 3"
    by metis
  from run surrogate_corrected(1) surrogate_text open1
  have o1: "output_dir (process_parallel_run surrogate_service sound_disk three_lessons [] persisted_dir [1, 2, 3]) 1
      = Some []"
    by blast
  from run surrogate_corrected(2) old2
  have o2: "output_dir (process_parallel_run surrogate_service sound_disk three_lessons [] persisted_dir [1, 2, 3]) 2
      = Some (ascii ''Lesson two'')"
    by metis
  from run surrogate_corrected(3) corrected_three_written
  have o3: "output_dir (process_parallel_run surrogate_service sound_disk three_lessons [] persisted_dir [1, 2, 3]) 3
      = Some (ascii ''Corrected: 03-1 raw three'')"
    by blast
  from d s r i l o1 o2 o3 show ?thesis
    by blast
qed

section \<open>Properties of the combined document\<close>

lemma py_join_Cons: "py_join sep (x # xs) = x @ concat (map (\<lambda>y. sep @ y) xs)"
  by (induction xs arbitrary: x) simp_all

lemma chapter_block_section:
  "concat (map (\<lambda>y. [10] @ y) (chapter_block files i))
     = (case files i of None \<Rightarrow> [] | Some stored \<Rightarrow> lesson_section (read_text stored))"
  by (simp add: chapter_block_def lesson_section_def split: option.split)

lemma combine_all_chapters_sections:
  "combine_all_chapters files
     = banner @ concat (map (\<lambda>i. case files i of None \<Rightarrow> []
                                  | Some stored \<Rightarrow> lesson_section (read_text stored)) [1..<16])"
proof -
  have "concat (map (\<lambda>y. [10] @ y) (concat (map (chapter_block files) nums)))
      = concat (map (\<lambda>i. case files i of None \<Rightarrow> []
                            | Some stored \<Rightarrow> lesson_section (read_text stored)) nums)" for nums
    by (induction nums) (simp_all add: chapter_block_section del: append.simps)
  then show ?thesis
    by (simp add: combine_all_chapters_def py_join_Cons banner_def del: upt_Suc)
qed

text \<open>
  Claim C6. The text that \<^verbatim>\<open>combine_all_chapters\<close> writes is the two banner lines followed,
  for each lesson number from 1 to 15 in ascending order whose chapter file exists, by a
  divider line of 70 characters and the text of the file; a lesson without a file
  contributes nothing. After a correction run the file of a lesson is the one that
  existed before, unless the lesson's correction succeeded: then it is what the write of
  the corrected text leaves, the corrected text itself when the write goes through. This
  holds whatever the order in which the futures completed, so that the combined document
  does not depend on that order.
\<close>

theorem combined_document:
  "combine_all_chapters files
     = banner @ concat (map (\<lambda>i. case files i of None \<Rightarrow> []
                                  | Some stored \<Rightarrow> lesson_section (read_text stored)) [1..<16])
   \<and> length divider = 70
   \<and> (\<forall>k. output_dir (process_parallel_run service disk chs ctx files completed) k
          = (if k \<in> set completed
             then (case corrected service chs ctx k of
                     None \<Rightarrow> files k
                   | Some t \<Rightarrow> file_after disk (files k) k t)
             else files k))
   \<and> (\<forall>k t. k \<in> set completed \<and> corrected service chs ctx k = Some t \<and> written disk k t
          \<longrightarrow> output_dir (process_parallel_run service disk chs ctx files completed) k = Some t)
   \<and> (set completed = set completed' \<longrightarrow>
        combine_all_chapters (output_dir (process_parallel_run service disk chs ctx files completed))
        = combine_all_chapters (output_dir (process_parallel_run service disk chs ctx files completed')))"
proof -
  have out: "output_dir (process_parallel_run service disk chs ctx files order)
      = (\<lambda>k. if k \<in> set order
              then (case corrected service chs ctx k of
                      None \<Rightarrow> files k
                    | Some t \<Rightarrow> file_after disk (files k) k t)
              else files k)" for order
    using process_parallel_run_fields [of service disk chs ctx files order] by simp
  have "output_dir (process_parallel_run service disk chs ctx files completed)
      = output_dir (process_parallel_run service disk chs ctx files completed')"
    if "set completed = set completed'"
    using that by (simp add: out)
  then show ?thesis
    using combine_all_chapters_sections [of files]
    by (simp add: out divider_def file_after_written)
qed

lemma failing_run_files:
  "output_dir (process_parallel_run failing_service sound_disk three_lessons [] Map.empty [3, Suc 0, 2])
     = [3 \<mapsto> ascii ''Corrected: 03-1 raw three'', 1 \<mapsto> ascii ''Corrected: 01-1 raw one'']"
  by (simp add: run_eval three_lessons_def failing_service_def ascii_def)

lemma surrogate_run_files:
  "output_dir (process_parallel_run surrogate_service sound_disk three_lessons [] Map.empty [3, Suc 0, 2])
     = [3 \<mapsto> ascii ''Corrected: 03-1 raw three'', 1 \<mapsto> []]"
  by (simp add: run_eval three_lessons_def surrogate_service_def ascii_def)

lemma read_text_one: "read_text (ascii ''Corrected: 01-1 raw one'') = ascii ''Corrected: 01-1 raw one''"
  by (simp add: ascii_def)

lemma read_text_three: "read_text (ascii ''Corrected: 03-1 raw three'') = ascii ''Corrected: 03-1 raw three''"
  by (simp add: ascii_def)

lemma read_text_empty: "read_text [] = []"
  by simp

theorem combined_document_witness:
  "combine_all_chapters
     (output_dir (process_parallel_run failing_service sound_disk three_lessons [] Map.empty [3, 1, 2]))
     = banner @ lesson_section (ascii ''Corrected: 01-1 raw one'')
         @ lesson_section (ascii ''Corrected: 03-1 raw three'')
   \<and> combine_all_chapters
        (output_dir (process_parallel_run failing_service sound_disk three_lessons [] Map.empty [3, 1, 2]))
     = combine_all_chapters
        (output_dir (process_parallel_run failing_service sound_disk three_lessons [] Map.empty [1, 2, 3]))
   \<and> combine_all_chapters
        (output_dir (process_parallel_run surrogate_service sound_disk three_lessons [] Map.empty [3, 1, 2]))
     = banner @ lesson_section [] @ lesson_section (ascii ''Corrected: 03-1 raw three'')"
proof -
  note doc = combined_document
    [of "output_dir (process_parallel_run failing_service sound_disk three_lessons [] Map.empty [3, 1, 2])"
        failing_service sound_disk three_lessons "[]" "[3, 1, 2]" "[1, 2, 3]"]
  have same: "set [3, 1, 2] = set [1, 2, 3 :: nat]"
    by auto
  from doc have "combine_all_chapters
     (output_dir (process_parallel_run failing_service sound_disk three_lessons [] Map.empty [3, 1, 2]))
     = banner @ concat (map (\<lambda>i. case output_dir (process_parallel_run failing_service sound_disk three_lessons [] Map.empty [3, 1, 2]) i of
                                    None \<Rightarrow> []
                                  | Some stored \<Rightarrow> lesson_section (read_text stored)) [1..<16])"
    by blast
  then have first: "combine_all_chapters
     (output_dir (process_parallel_run failing_service sound_disk three_lessons [] Map.empty [3, 1, 2]))
     = banner @ lesson_section (ascii ''Corrected: 01-1 raw one'')
         @ lesson_section (ascii ''Corrected: 03-1 raw three'')"
    by (simp add: failing_run_files chapter_numbers read_text_one read_text_three)
  from combined_document [of Map.empty failing_service sound_disk three_lessons "[]" "[3, 1, 2]" "[1, 2, 3]"] same
  have second: "combine_all_chapters
        (output_dir (process_parallel_run failing_service sound_disk three_lessons [] Map.empty [3, 1, 2]))
     = combine_all_chapters
        (output_dir (process_parallel_run failing_service sound_disk three_lessons [] Map.empty [1, 2, 3]))"
    by blast
  from combined_document
    [of "output_dir (process_parallel_run surrogate_service sound_disk three_lessons [] Map.empty [3, 1, 2])"
        surrogate_service sound_disk three_lessons "[]" "[3, 1, 2]" "[1, 2, 3]"]
  have "combine_all_chapters
     (output_dir (process_parallel_run surrogate_service sound_disk three_lessons [] Map.empty [3, 1, 2]))
     = banner @ concat (map (\<lambda>i. case output_dir (process_parallel_run surrogate_service sound_disk three_lessons [] Map.empty [3, 1, 2]) i of
                                    None \<Rightarrow> []
                                  | Some stored \<Rightarrow> lesson_section (read_text stored)) [1..<16])"
    by blast
  then have third: "combine_all_chapters
     (output_dir (process_parallel_run surrogate_service sound_disk three_lessons [] Map.empty [3, 1, 2]))
     = banner @ lesson_section [] @ lesson_section (ascii ''Corrected: 03-1 raw three'')"
    by (simp add: surrogate_run_files chapter_numbers read_text_three)
  from first second third show ?thesis
    by blast
qed

end
